theory Spec2Isabelle
  imports Main "HOL-Library.AList" "HOL-Library.Multiset"
begin

section \<open>Python values shared by the four aircraft scripts\<close>

text \<open>
  The scripts handle Python \<open>str\<close> values, whose elements are Unicode code points.
  The texts are modelled over the Latin-1 code points (\<open>Lat c\<close>, the code point of the
  8-bit character \<open>c\<close>) together with the six glyphs beyond Latin-1 that the scripts
  themselves introduce. On this alphabet the predicates below agree with CPython 3.11
  (\<open>str.isspace\<close>, \<open>str.isdigit\<close>, \<open>str.strip\<close>, \<open>int\<close>).
\<close>

datatype uchar =
    Lat char
  | BALLOT_BOX      \<comment> \<open>U+2610\<close>
  | UP_ARROW        \<comment> \<open>U+2191\<close>
  | DOWN_ARROW      \<comment> \<open>U+2193\<close>
  | LEFT_ARROW      \<comment> \<open>U+2190\<close>
  | RIGHT_ARROW     \<comment> \<open>U+2192\<close>
  | GREEK_DELTA     \<comment> \<open>U+0394\<close>

type_synonym ustring = "uchar list"

abbreviation str :: "string \<Rightarrow> ustring" where
  "str s \<equiv> map Lat s"

definition DEGREES :: uchar where
  "DEGREES = Lat (CHR 0xB0)"

datatype py_error =
  IndexError | KeyError | ValueError | TypeError | AttributeError | StopIteration

text \<open>Sequencing of fallible steps: an exception raised by the first step propagates.\<close>

definition on_ok :: "py_error + 'a \<Rightarrow> ('a \<Rightarrow> py_error + 'b) \<Rightarrow> py_error + 'b" where
  "on_ok m f = (case m of Inl e \<Rightarrow> Inl e | Inr x \<Rightarrow> f x)"

definition CDU_COLUMNS :: nat where "CDU_COLUMNS = 24"
definition CDU_ROWS :: nat where "CDU_ROWS = 14"

subsection \<open>Strings\<close>

text \<open>\<open>s.startswith(p)\<close>, \<open>s.endswith(p)\<close> and \<open>p in s\<close>.\<close>

fun startswith :: "'a list \<Rightarrow> 'a list \<Rightarrow> bool" where
  "startswith s [] = True"
| "startswith [] (p # ps) = False"
| "startswith (c # cs) (p # ps) = (c = p \<and> startswith cs ps)"

definition endswith :: "'a list \<Rightarrow> 'a list \<Rightarrow> bool" where
  "endswith s p = startswith (rev s) (rev p)"

fun contains :: "'a list \<Rightarrow> 'a list \<Rightarrow> bool" where
  "contains p [] = (p = [])"
| "contains p (c # cs) = (startswith (c # cs) p \<or> contains p cs)"

text \<open>\<open>s[-1]\<close> raises IndexError on the empty string.\<close>

definition py_last :: "'a list \<Rightarrow> py_error + 'a" where
  "py_last s = (if s = [] then Inl IndexError else Inr (last s))"

text \<open>\<open>s[i]\<close> for a non-negative index, and the slice \<open>s[a:b]\<close> with \<open>0 \<le> a \<le> b\<close>.\<close>

definition py_index :: "'a list \<Rightarrow> nat \<Rightarrow> py_error + 'a" where
  "py_index s i = (if i < length s then Inr (s ! i) else Inl IndexError)"

definition py_slice :: "'a list \<Rightarrow> nat \<Rightarrow> nat \<Rightarrow> 'a list" where
  "py_slice s a b = take (b - a) (drop a s)"

text \<open>
  \<open>c.isspace()\<close> on a single character: within Latin-1 these are U+0009..U+000D,
  U+001C..U+001F, U+0020, U+0085 and U+00A0; none of the six glyphs is whitespace.
\<close>

fun py_isspace :: "uchar \<Rightarrow> bool" where
  "py_isspace (Lat c) =
     (c \<in> set [CHR 0x09, CHR 0x0A, CHR 0x0B, CHR 0x0C, CHR 0x0D, CHR 0x1C, CHR 0x1D,
               CHR 0x1E, CHR 0x1F, CHR 0x20, CHR 0x85, CHR 0xA0])"
| "py_isspace _ = False"

text \<open>\<open>s.isspace()\<close>: non-empty and whitespace only.\<close>

definition isspace :: "ustring \<Rightarrow> bool" where
  "isspace s = (s \<noteq> [] \<and> list_all py_isspace s)"

definition strip :: "ustring \<Rightarrow> ustring" where
  "strip s = rev (dropWhile py_isspace (rev (dropWhile py_isspace s)))"

text \<open>
  \<open>c.isdigit()\<close>: the ASCII digits and the superscripts U+00B2, U+00B3, U+00B9. Only the
  ASCII digits are decimal, i.e. accepted by \<open>int\<close>.
\<close>

definition DIGITS :: "(char \<times> nat) list" where
  "DIGITS = zip ''0123456789'' [0, 1, 2, 3, 4, 5, 6, 7, 8, 9]"

fun digit_val :: "uchar \<Rightarrow> nat option" where
  "digit_val (Lat c) = map_of DIGITS c"
| "digit_val _ = None"

fun isdigit :: "uchar \<Rightarrow> bool" where
  "isdigit (Lat c) = (digit_val (Lat c) \<noteq> None \<or> c \<in> set [CHR 0xB2, CHR 0xB3, CHR 0xB9])"
| "isdigit _ = False"

text \<open>
  \<open>int(s)\<close> for a string: surrounding whitespace is dropped (for \<open>int\<close> the separators
  U+001C..U+001F do not count as whitespace), then an optional sign, then decimal digits
  in which single underscores may separate digits. Anything else raises ValueError.
\<close>

fun int_space :: "uchar \<Rightarrow> bool" where
  "int_space (Lat c) =
     (c \<in> set [CHR 0x09, CHR 0x0A, CHR 0x0B, CHR 0x0C, CHR 0x0D, CHR 0x20, CHR 0x85, CHR 0xA0])"
| "int_space _ = False"

fun int_digits :: "bool \<Rightarrow> nat \<Rightarrow> ustring \<Rightarrow> nat option" where
  "int_digits prev acc [] = (if prev then Some acc else None)"
| "int_digits prev acc (c # cs) =
     (case digit_val c of
        Some d \<Rightarrow> int_digits True (10 * acc + d) cs
      | None \<Rightarrow> if c = Lat CHR ''_'' \<and> prev then int_digits False acc cs else None)"

definition py_int :: "ustring \<Rightarrow> py_error + int" where
  "py_int s =
     (let t = rev (dropWhile int_space (rev (dropWhile int_space s)));
          sgn_body = (case t of
                        c # r \<Rightarrow> if c = Lat CHR ''-'' then (- 1, r)
                                 else if c = Lat CHR ''+'' then (1, r) else (1, t)
                      | [] \<Rightarrow> (1, t))
      in case int_digits False 0 (snd sgn_body) of
           None \<Rightarrow> Inl ValueError
         | Some n \<Rightarrow> Inr (fst sgn_body * int n))"

subsection \<open>Dictionaries and lists\<close>

text \<open>
  A Python \<open>dict\<close> keeps its keys in insertion order, and the decoders iterate over
  \<open>items()\<close>, so a dict is an association list. \<open>d[k] = v\<close> is \<open>AList.update\<close>: an
  existing key keeps its place, a new key goes to the end. \<open>d.get(k, default)\<close>:
\<close>

definition dict_get :: "('k \<times> 'v) list \<Rightarrow> 'k \<Rightarrow> 'v \<Rightarrow> 'v" where
  "dict_get d k dflt = (case map_of d k of None \<Rightarrow> dflt | Some v \<Rightarrow> v)"

text \<open>\<open>xs[i] = v\<close> for a Python integer index: negative indices count from the end.\<close>

definition py_setitem :: "'a list \<Rightarrow> int \<Rightarrow> 'a \<Rightarrow> py_error + 'a list" where
  "py_setitem xs i v =
     (if 0 \<le> i \<and> i < int (length xs) then Inr (xs[nat i := v])
      else if i < 0 \<and> - int (length xs) \<le> i then Inr (xs[nat (int (length xs) + i) := v])
      else Inl IndexError)"

text \<open>\<open>xs[a:b] = ys\<close> for \<open>0 \<le> a \<le> b\<close>.\<close>

definition py_setslice :: "'a list \<Rightarrow> nat \<Rightarrow> nat \<Rightarrow> 'a list \<Rightarrow> 'a list" where
  "py_setslice xs a b ys = take a xs @ ys @ drop b xs"

subsection \<open>The cell grid and the display message\<close>

text \<open>
  A cell is the triple (character, colour, size) or the empty list \<open>[]\<close>, here \<open>None\<close>.
  The colour is a one-character string in all four scripts. The character is a
  one-character string and the size a Python int in three scripts; in the FlightFactor
  script both are elements of the values of the snapshot, whatever these are.
\<close>

type_synonym ('c, 's) cell = "'c \<times> uchar \<times> 's"
type_synonym ('c, 's) grid = "('c, 's) cell option list"

datatype json =
  JStr ustring | JInt int | JNull | JArr "json list" | JObj "(string \<times> json) list"

text \<open>
  The argument of \<open>json.dumps\<close> in the scripts, as a document:
  \<open>{"Target": "Display", "Data": display_data}\<close>.
\<close>

definition cell_json ::
  "('c \<Rightarrow> json) \<Rightarrow> ('s \<Rightarrow> json) \<Rightarrow> ('c, 's) cell option \<Rightarrow> json" where
  "cell_json char_enc size_enc c =
     (case c of None \<Rightarrow> JArr []
      | Some (ch, col, sz) \<Rightarrow> JArr [char_enc ch, JStr [col], size_enc sz])"

definition display_message ::
  "('c \<Rightarrow> json) \<Rightarrow> ('s \<Rightarrow> json) \<Rightarrow> ('c, 's) grid \<Rightarrow> json" where
  "display_message char_enc size_enc display_data =
     JObj [(''Target'', JStr (str ''Display'')),
           (''Data'', JArr (map (cell_json char_enc size_enc) display_data))]"

text \<open>The cell at a position of a decoding result.\<close>

definition cell_at :: "py_error + 'a list \<Rightarrow> nat \<Rightarrow> py_error + 'a" where
  "cell_at r k = on_ok r (\<lambda>g. py_index g k)"

section \<open>ToLiss A3xx (\<open>ToLiss_a3xx.py\<close>)\<close>

definition CONTENT_MAP :: "(uchar \<times> uchar) list" where
  "CONTENT_MAP = [(Lat CHR 0x60, DEGREES), (Lat CHR ''|'', GREEK_DELTA)]"

definition SYMBOL_MAP :: "(uchar \<times> uchar) list" where
  "SYMBOL_MAP = CONTENT_MAP @
     [(Lat CHR ''A'', Lat CHR ''[''), (Lat CHR ''B'', Lat CHR '']''),
      (Lat CHR ''E'', BALLOT_BOX),
      (Lat CHR ''0'', LEFT_ARROW), (Lat CHR ''1'', RIGHT_ARROW),
      (Lat CHR ''2'', LEFT_ARROW), (Lat CHR ''3'', RIGHT_ARROW),
      (Lat CHR ''4'', LEFT_ARROW), (Lat CHR ''5'', RIGHT_ARROW),
      (Lat CHR ''C'', UP_ARROW), (Lat CHR ''D'', DOWN_ARROW)]"

definition COLOR_MAP_toliss :: "(uchar \<times> uchar) list" where
  "COLOR_MAP_toliss = [(Lat CHR ''b'', Lat CHR ''c'')]"

definition SYMBOL_COLOR_MAP :: "(uchar \<times> uchar) list" where
  "SYMBOL_COLOR_MAP =
     [(Lat CHR ''E'', Lat CHR ''a''), (Lat CHR ''4'', Lat CHR ''a''),
      (Lat CHR ''5'', Lat CHR ''a'')]"

definition get_color_toliss :: "ustring \<Rightarrow> uchar \<Rightarrow> py_error + uchar" where
  "get_color_toliss dataref_name char =
     on_ok (py_last dataref_name) (\<lambda>suffix.
       if ((contains (str ''label'') dataref_name \<or> contains (str ''title'') dataref_name)
             \<and> suffix = Lat CHR ''s'')
          \<or> endswith dataref_name (str ''VertSlewKeys'')
       then Inr (Lat CHR ''w'')
       else if suffix = Lat CHR ''s'' then Inr (dict_get SYMBOL_COLOR_MAP char (Lat CHR ''c''))
       else Inr (dict_get COLOR_MAP_toliss suffix suffix))"

definition get_char_toliss :: "ustring \<Rightarrow> uchar \<Rightarrow> py_error + uchar" where
  "get_char_toliss dataref_name char =
     on_ok (py_last dataref_name) (\<lambda>suffix.
       if suffix = Lat CHR ''s'' then Inr (dict_get SYMBOL_MAP char char)
       else Inr (dict_get CONTENT_MAP char char))"

definition get_size_toliss :: "ustring \<Rightarrow> int" where
  "get_size_toliss dataref_name =
     (if contains (str ''scont'') dataref_name
         \<or> (contains (str ''label'') dataref_name \<and> \<not> contains (str ''labelL'') dataref_name)
      then 1 else 0)"

text \<open>
  The inner loop of \<open>process_cdu_line\<close>: \<open>for i, char in enumerate(text[:CDU_COLUMNS])\<close>.
  The tuple is built left to right, so \<open>get_char\<close> is called before \<open>get_color\<close>.
\<close>

fun put_chars_toliss ::
  "ustring \<Rightarrow> (nat \<times> uchar) list \<Rightarrow> (uchar, int) grid \<Rightarrow> py_error + (uchar, int) grid" where
  "put_chars_toliss dataref [] line_chars = Inr line_chars"
| "put_chars_toliss dataref ((i, char) # rest) line_chars =
     (if char = Lat CHR '' '' then put_chars_toliss dataref rest line_chars
      else on_ok (get_char_toliss dataref char) (\<lambda>ch.
           on_ok (get_color_toliss dataref char) (\<lambda>col.
           on_ok (py_setitem line_chars (int i) (Some (ch, col, get_size_toliss dataref)))
             (put_chars_toliss dataref rest))))"

text \<open>The outer loop of \<open>process_cdu_line\<close>: \<open>for dataref, text in line_datarefs.items()\<close>.\<close>

fun line_items_toliss ::
  "(ustring \<times> ustring) list \<Rightarrow> nat \<Rightarrow> (uchar, int) grid \<Rightarrow> py_error + (uchar, int) grid" where
  "line_items_toliss [] row line_chars = Inr line_chars"
| "line_items_toliss ((dataref, text) # rest) row line_chars =
     (if text = [] \<or> isspace text then line_items_toliss rest row line_chars
      else if (row \<noteq> 0 \<and> row \<noteq> 14)
              \<and> \<not> contains (if row mod 2 = 0 then str ''label'' else str ''cont'') dataref
      then line_items_toliss rest row line_chars
      else on_ok (put_chars_toliss dataref (enumerate 0 (take CDU_COLUMNS text)) line_chars)
             (line_items_toliss rest row))"

definition process_cdu_line_toliss ::
  "(ustring \<times> ustring) list \<Rightarrow> nat \<Rightarrow> py_error + (uchar, int) grid" where
  "process_cdu_line_toliss line_datarefs row =
     line_items_toliss line_datarefs row (replicate CDU_COLUMNS None)"

text \<open>
  The expression computing \<open>line_num\<close> in \<open>group_datarefs_by_line\<close>. \<open>next\<close> over the
  reversed name raises StopIteration when the name has no digit; \<open>int\<close> raises
  ValueError on a superscript digit.
\<close>

definition line_num_toliss :: "ustring \<Rightarrow> py_error + int" where
  "line_num_toliss dataref =
     (if contains (str ''title'') dataref then Inr 0
      else if dataref \<in> set [str ''AirbusFBW/MCDU1spa'', str ''AirbusFBW/MCDU1spw'',
                              str ''AirbusFBW/MCDU1VertSlewKeys'']
      then Inr 7
      else (case filter isdigit (rev dataref) of
              [] \<Rightarrow> Inl StopIteration
            | i # _ \<Rightarrow> py_int [i]))"

text \<open>
  \<open>group_datarefs_by_line\<close>: the body of the loop is inside \<open>try ... except Exception: pass\<close>,
  so a dataref whose line number cannot be computed is left out.
\<close>

fun group_datarefs_by_line_toliss ::
  "(ustring \<times> ustring) list \<Rightarrow> (int \<times> (ustring \<times> ustring) list) list
     \<Rightarrow> (int \<times> (ustring \<times> ustring) list) list" where
  "group_datarefs_by_line_toliss [] grouped_datarefs = grouped_datarefs"
| "group_datarefs_by_line_toliss ((dataref, v) # rest) grouped_datarefs =
     (case line_num_toliss dataref of
        Inl e \<Rightarrow> group_datarefs_by_line_toliss rest grouped_datarefs
      | Inr line_num \<Rightarrow>
          (let g = (if line_num \<notin> fst ` set grouped_datarefs
                    then AList.update line_num [] grouped_datarefs else grouped_datarefs)
           in group_datarefs_by_line_toliss rest
                (AList.update line_num (AList.update dataref v (dict_get g line_num [])) g)))"

text \<open>One round of \<open>for row in range(CDU_ROWS + 1)\<close> in \<open>generate_display_json\<close>.\<close>

definition row_step_toliss ::
  "(int \<times> (ustring \<times> ustring) list) list \<Rightarrow> nat \<Rightarrow> (uchar, int) grid \<Rightarrow> py_error + (uchar, int) grid" where
  "row_step_toliss grouped_datarefs row display_data =
     (if row = 1 then Inr display_data
      else
        let dataref_line = (if row > 0 then row div 2 else 0);
            line_datarefs = dict_get grouped_datarefs (int dataref_line) []
        in if line_datarefs = [] then Inr display_data
           else on_ok (process_cdu_line_toliss line_datarefs row) (\<lambda>line_chars.
                  let start_index = (if row > 0 then row - 1 else row) * CDU_COLUMNS
                  in Inr (py_setslice display_data start_index (start_index + CDU_COLUMNS)
                            line_chars)))"

fun rows_toliss ::
  "(int \<times> (ustring \<times> ustring) list) list \<Rightarrow> nat list \<Rightarrow> (uchar, int) grid \<Rightarrow> py_error + (uchar, int) grid" where
  "rows_toliss grouped_datarefs [] display_data = Inr display_data"
| "rows_toliss grouped_datarefs (row # rows) display_data =
     on_ok (row_step_toliss grouped_datarefs row display_data)
       (rows_toliss grouped_datarefs rows)"

text \<open>The list \<open>display_data\<close> that \<open>generate_display_json\<close> builds from a snapshot.\<close>

definition display_data_toliss :: "(ustring \<times> ustring) list \<Rightarrow> py_error + (uchar, int) grid" where
  "display_data_toliss values =
     rows_toliss (group_datarefs_by_line_toliss values []) [0 ..< CDU_ROWS + 1]
       (replicate (CDU_ROWS * CDU_COLUMNS) None)"

definition generate_display_json_toliss :: "(ustring \<times> ustring) list \<Rightarrow> py_error + json" where
  "generate_display_json_toliss values =
     on_ok (display_data_toliss values) (\<lambda>display_data.
       Inr (display_message (\<lambda>c. JStr [c]) JInt display_data))"

section \<open>X-Crafts E-Jets (\<open>xcrafts_ejets.py\<close>)\<close>

text \<open>
  The feed client of this script and of the FlightFactor one stores a string after
  base64 decoding and passes any other JSON value through unchanged, so a snapshot value
  is a string, a number, \<open>None\<close> or a list of such values (a JSON array, which is how
  the simulator sends a dataref that is an array of numbers). A number is taken to be
  an integer: the scripts compare, store and pass on the numbers of a snapshot and never
  compute with them. JSON objects and booleans have no term.
\<close>

datatype pyval = PStr ustring | PInt int | PNone | PList "pyval list"

text \<open>A value as a JSON document.\<close>

fun pyval_json :: "pyval \<Rightarrow> json" where
  "pyval_json (PStr s) = JStr s"
| "pyval_json (PInt n) = JInt n"
| "pyval_json PNone = JNull"
| "pyval_json (PList xs) = JArr (map pyval_json xs)"

datatype CduDevice = Captain | CoPilot

definition COLOR_MAP_xcrafts :: "(int \<times> uchar) list" where
  "COLOR_MAP_xcrafts = []"

definition get_color_xcrafts :: "int \<Rightarrow> uchar" where
  "get_color_xcrafts color = dict_get COLOR_MAP_xcrafts color (Lat CHR ''w'')"

text \<open>
  The five assignments at the head of the loop body of \<open>translate_values\<close>, in the order
  in which they are evaluated: \<open>row\<close>, \<open>col\<close>, \<open>size\<close>, \<open>color\<close>, \<open>text\<close>.
\<close>

definition packed_fields :: "ustring \<Rightarrow> py_error + (int \<times> int \<times> int \<times> int \<times> ustring)" where
  "packed_fields v =
     on_ok (py_int (py_slice v 0 2)) (\<lambda>r.
     on_ok (py_int (py_slice v 2 4)) (\<lambda>c.
     on_ok (on_ok (py_index v 4) (\<lambda>x. py_int [x])) (\<lambda>size'.
     on_ok (on_ok (py_index v 5) (\<lambda>x. py_int [x])) (\<lambda>color.
       Inr (r - 1, c - 1, size', color, strip (drop 6 v))))))"

text \<open>The inner loop \<open>for char_index, char in enumerate(text)\<close>.\<close>

fun put_text_xcrafts ::
  "(nat \<times> uchar) list \<Rightarrow> int \<Rightarrow> int \<Rightarrow> int \<Rightarrow> (uchar, int) grid \<Rightarrow> py_error + (uchar, int) grid" where
  "put_text_xcrafts [] index color size' display_data = Inr display_data"
| "put_text_xcrafts ((char_index, char) # rest) index color size' display_data =
     (if char_index > CDU_COLUMNS - 1 then Inr display_data
      else if char = Lat CHR '' '' then put_text_xcrafts rest index color size' display_data
      else on_ok (py_setitem display_data (index + int char_index - 1)
                    (Some (char, get_color_xcrafts color, size')))
             (put_text_xcrafts rest index color size'))"

text \<open>
  The outer loop \<open>for _, value in values.items()\<close>. An empty value leaves the loop
  (\<open>break\<close>); \<open>value.strip()\<close> on a number or a list raises AttributeError.
\<close>

fun translate_items :: "(ustring \<times> pyval) list \<Rightarrow> (uchar, int) grid \<Rightarrow> py_error + (uchar, int) grid" where
  "translate_items [] display_data = Inr display_data"
| "translate_items ((k, PNone) # rest) display_data = Inr display_data"
| "translate_items ((k, PInt n) # rest) display_data = Inl AttributeError"
| "translate_items ((k, PList xs) # rest) display_data = Inl AttributeError"
| "translate_items ((k, PStr v) # rest) display_data =
     (if strip v = [] then Inr display_data
      else on_ok (packed_fields v) (\<lambda>(row, col, size', color, text).
             if text = [] then translate_items rest display_data
             else on_ok (put_text_xcrafts (enumerate 0 text)
                           (row * int CDU_COLUMNS + col) color size' display_data)
                    (translate_items rest)))"

definition translate_values :: "(ustring \<times> pyval) list \<Rightarrow> py_error + (uchar, int) grid" where
  "translate_values values = translate_items values (replicate (CDU_ROWS * CDU_COLUMNS) None)"

text \<open>
  \<open>generate_display_json\<close> of this script prints the translated values and ends with a
  bare \<open>return\<close>: its result is Python's \<open>None\<close>, here the \<open>None\<close> of \<open>json option\<close>.
\<close>

definition generate_display_json_xcrafts ::
  "CduDevice \<Rightarrow> (ustring \<times> pyval) list \<Rightarrow> py_error + json option" where
  "generate_display_json_xcrafts device values =
     on_ok (translate_values values) (\<lambda>translated_values. Inr None)"

section \<open>FlightFactor 757/767 (\<open>flightfactor_75_76.py\<close>)\<close>

definition CHAR_MAP_ff :: "(ustring \<times> ustring) list" where
  "CHAR_MAP_ff = [([Lat (CHR 0x1D)], [BALLOT_BOX]), ([Lat (CHR 0x1C)], [DEGREES])]"

definition SYMBOLS :: ustring where
  "SYMBOLS = str ''1-sim/cduL/display/symbols''"
definition SYMBOLS_COLOR :: ustring where
  "SYMBOLS_COLOR = str ''1-sim/cduL/display/symbolsColor''"
definition SYMBOLS_SIZE :: ustring where
  "SYMBOLS_SIZE = str ''1-sim/cduL/display/symbolsSize''"

text \<open>
  The fields of a \<open>CduLine\<close> are whatever \<open>zip\<close> yields: a one-character string for a
  value that is a string, an element of the list for a value that is a list.
\<close>

record CduLine =
  line_char :: pyval
  line_size :: pyval
  line_color :: pyval

text \<open>
  \<open>CHAR_MAP.get(char, char)\<close>: a string is looked up, a number or \<open>None\<close> is no key of
  the table, and a list cannot be hashed, which raises TypeError.
\<close>

fun get_char_ff :: "pyval \<Rightarrow> py_error + pyval" where
  "get_char_ff (PStr s) = Inr (PStr (dict_get CHAR_MAP_ff s s))"
| "get_char_ff (PInt n) = Inr (PInt n)"
| "get_char_ff PNone = Inr PNone"
| "get_char_ff (PList xs) = Inl TypeError"

text \<open>
  \<open>values[k]\<close> raises KeyError. \<open>zip\<close> iterates a string by its characters and a list by
  its elements, and raises TypeError on a number and on \<open>None\<close>.
\<close>

definition dict_item :: "('k \<times> 'v) list \<Rightarrow> 'k \<Rightarrow> py_error + 'v" where
  "dict_item d k = (case map_of d k of None \<Rightarrow> Inl KeyError | Some v \<Rightarrow> Inr v)"

fun py_iter :: "pyval \<Rightarrow> py_error + pyval list" where
  "py_iter (PStr s) = Inr (map (\<lambda>c. PStr [c]) s)"
| "py_iter (PList xs) = Inr xs"
| "py_iter (PInt n) = Inl TypeError"
| "py_iter PNone = Inl TypeError"

definition process_display_datarefs :: "(ustring \<times> pyval) list \<Rightarrow> py_error + CduLine list" where
  "process_display_datarefs values =
     on_ok (dict_item values SYMBOLS) (\<lambda>symbols.
     on_ok (dict_item values SYMBOLS_SIZE) (\<lambda>symbol_sizes.
     on_ok (dict_item values SYMBOLS_COLOR) (\<lambda>symbol_colors.
     on_ok (py_iter symbols) (\<lambda>s.
     on_ok (py_iter symbol_sizes) (\<lambda>sz.
     on_ok (py_iter symbol_colors) (\<lambda>co.
       Inr (map (\<lambda>(symbol, size', color).
                   \<lparr>line_char = symbol, line_size = size', line_color = color\<rparr>)
              (zip s (zip sz co)))))))))"

text \<open>The loops \<open>for row in range(CDU_ROWS)\<close> and \<open>for col in range(CDU_COLUMNS)\<close>.\<close>

fun cols_ff ::
  "CduLine list \<Rightarrow> nat \<Rightarrow> nat list \<Rightarrow> (pyval, pyval) grid
     \<Rightarrow> py_error + (pyval, pyval) grid" where
  "cols_ff processed_datarefs row [] display_data = Inr display_data"
| "cols_ff processed_datarefs row (col # cols) display_data =
     (let index = row * CDU_COLUMNS + col
      in on_ok (py_index processed_datarefs index) (\<lambda>cdu_line.
           if line_char cdu_line = PStr [Lat CHR '' '']
           then cols_ff processed_datarefs row cols display_data
           else on_ok (get_char_ff (line_char cdu_line)) (\<lambda>ch.
                on_ok (py_setitem display_data (int index)
                         (Some (ch, Lat CHR ''g'', line_size cdu_line)))
                  (cols_ff processed_datarefs row cols))))"

fun rows_ff ::
  "CduLine list \<Rightarrow> nat list \<Rightarrow> (pyval, pyval) grid \<Rightarrow> py_error + (pyval, pyval) grid" where
  "rows_ff processed_datarefs [] display_data = Inr display_data"
| "rows_ff processed_datarefs (row # rows) display_data =
     on_ok (cols_ff processed_datarefs row [0 ..< CDU_COLUMNS] display_data)
       (rows_ff processed_datarefs rows)"

definition display_data_ff :: "(ustring \<times> pyval) list \<Rightarrow> py_error + (pyval, pyval) grid" where
  "display_data_ff values =
     on_ok (process_display_datarefs values) (\<lambda>processed_datarefs.
       rows_ff processed_datarefs [0 ..< CDU_ROWS] (replicate (CDU_ROWS * CDU_COLUMNS) None))"

definition generate_display_json_ff :: "(ustring \<times> pyval) list \<Rightarrow> py_error + json" where
  "generate_display_json_ff values =
     on_ok (display_data_ff values) (\<lambda>display_data.
       Inr (display_message pyval_json pyval_json display_data))"

section \<open>Zibo 737-800X (\<open>zibo_737_800x.py\<close>)\<close>

definition CHARACTER_MAPPING :: "(uchar \<times> uchar) list" where
  "CHARACTER_MAPPING = [(Lat CHR 0x60, DEGREES), (Lat CHR ''*'', BALLOT_BOX)]"

definition COLOR_MAPPING :: "(ustring \<times> uchar) list" where
  "COLOR_MAPPING =
     [(str ''GX'', Lat CHR ''g''), (str ''G'', Lat CHR ''g''), (str ''C'', Lat CHR ''c''),
      (str ''I'', Lat CHR ''e''), (str ''M'', Lat CHR ''m'')]"

text \<open>\<open>s.rindex(c)\<close>: the last position of \<open>c\<close>, ValueError when there is none.\<close>

definition py_rindex :: "'a list \<Rightarrow> 'a \<Rightarrow> py_error + nat" where
  "py_rindex s c =
     (if c \<in> set s then Inr (length s - 1 - length (takeWhile (\<lambda>x. x \<noteq> c) (rev s)))
      else Inl ValueError)"

definition get_color_zibo :: "ustring \<Rightarrow> py_error + uchar" where
  "get_color_zibo dataref =
     on_ok (py_rindex dataref (Lat CHR ''_'')) (\<lambda>i.
       let dataref_ending = drop (i + 1) dataref
       in Inr (if dataref_ending \<notin> fst ` set COLOR_MAPPING then Lat CHR ''w''
               else dict_get COLOR_MAPPING dataref_ending (Lat CHR ''w'')))"

definition get_size_zibo :: "ustring \<Rightarrow> int" where
  "get_size_zibo dataref =
     (if endswith dataref (str ''X'') \<or> endswith dataref (str ''S'') then 1 else 0)"

fun put_chars_zibo ::
  "ustring \<Rightarrow> (nat \<times> uchar) list \<Rightarrow> (uchar, int) grid \<Rightarrow> py_error + (uchar, int) grid" where
  "put_chars_zibo dataref [] line_chars = Inr line_chars"
| "put_chars_zibo dataref ((i, char) # rest) line_chars =
     (if char = Lat CHR '' '' then put_chars_zibo dataref rest line_chars
      else on_ok (get_color_zibo dataref) (\<lambda>col.
           on_ok (py_setitem line_chars (int i)
                    (Some (dict_get CHARACTER_MAPPING char char, col, get_size_zibo dataref)))
             (put_chars_zibo dataref rest)))"

definition target_suffixes :: "nat \<Rightarrow> ustring list" where
  "target_suffixes row =
     (if row mod 2 = 0 then [str ''_X'', str ''_LX'', str ''_GX'']
      else [str ''_G'', str ''_L'', str ''_M'', str ''_S'', str ''_I'', str ''_SI''])"

fun line_items_zibo ::
  "(ustring \<times> ustring) list \<Rightarrow> nat \<Rightarrow> (uchar, int) grid \<Rightarrow> py_error + (uchar, int) grid" where
  "line_items_zibo [] row line_chars = Inr line_chars"
| "line_items_zibo ((dataref, text) # rest) row line_chars =
     (if text = [] \<or> isspace text then line_items_zibo rest row line_chars
      else if (row \<noteq> 0 \<and> row \<noteq> 14)
              \<and> \<not> list_ex (endswith dataref) (target_suffixes row)
      then line_items_zibo rest row line_chars
      else on_ok (put_chars_zibo dataref (enumerate 0 (take CDU_COLUMNS text)) line_chars)
             (line_items_zibo rest row))"

definition process_cdu_line_zibo ::
  "(ustring \<times> ustring) list \<Rightarrow> nat \<Rightarrow> py_error + (uchar, int) grid" where
  "process_cdu_line_zibo line_datarefs row =
     line_items_zibo line_datarefs row (replicate CDU_COLUMNS None)"

definition line_num_zibo :: "ustring \<Rightarrow> py_error + int" where
  "line_num_zibo dataref =
     on_ok (py_rindex dataref (Lat CHR ''/'')) (\<lambda>i.
       let dataref_name = drop (i + 1) dataref
       in if startswith dataref_name (str ''Line_entry'') then Inr 7
          else py_int (py_slice dataref_name 4 6))"

text \<open>\<open>group_datarefs_by_line\<close> of this script has no \<open>try\<close>: an exception propagates.\<close>

fun group_datarefs_by_line_zibo ::
  "(ustring \<times> ustring) list \<Rightarrow> (int \<times> (ustring \<times> ustring) list) list
     \<Rightarrow> py_error + (int \<times> (ustring \<times> ustring) list) list" where
  "group_datarefs_by_line_zibo [] grouped_datarefs = Inr grouped_datarefs"
| "group_datarefs_by_line_zibo ((dataref, v) # rest) grouped_datarefs =
     on_ok (line_num_zibo dataref) (\<lambda>line_num.
       let g = (if line_num \<notin> fst ` set grouped_datarefs
                then AList.update line_num [] grouped_datarefs else grouped_datarefs)
       in group_datarefs_by_line_zibo rest
            (AList.update line_num (AList.update dataref v (dict_get g line_num [])) g))"

definition row_step_zibo ::
  "(int \<times> (ustring \<times> ustring) list) list \<Rightarrow> nat \<Rightarrow> (uchar, int) grid \<Rightarrow> py_error + (uchar, int) grid" where
  "row_step_zibo grouped_datarefs row display_data =
     (if row = 1 then Inr display_data
      else
        let dataref_line = (if row > 0 then row div 2 else 0);
            line_datarefs = dict_get grouped_datarefs (int dataref_line) []
        in if line_datarefs = [] then Inr display_data
           else on_ok (process_cdu_line_zibo line_datarefs row) (\<lambda>line_chars.
                  let start_index = (if row > 0 then row - 1 else row) * CDU_COLUMNS
                  in Inr (py_setslice display_data start_index (start_index + CDU_COLUMNS)
                            line_chars)))"

fun rows_zibo ::
  "(int \<times> (ustring \<times> ustring) list) list \<Rightarrow> nat list \<Rightarrow> (uchar, int) grid \<Rightarrow> py_error + (uchar, int) grid" where
  "rows_zibo grouped_datarefs [] display_data = Inr display_data"
| "rows_zibo grouped_datarefs (row # rows) display_data =
     on_ok (row_step_zibo grouped_datarefs row display_data) (rows_zibo grouped_datarefs rows)"

definition display_data_zibo :: "(ustring \<times> ustring) list \<Rightarrow> py_error + (uchar, int) grid" where
  "display_data_zibo values =
     on_ok (group_datarefs_by_line_zibo values []) (\<lambda>grouped_datarefs.
       rows_zibo grouped_datarefs [0 ..< CDU_ROWS + 1]
         (replicate (CDU_ROWS * CDU_COLUMNS) None))"

definition get_display_json :: "(ustring \<times> ustring) list \<Rightarrow> py_error + json" where
  "get_display_json values =
     on_ok (display_data_zibo values) (\<lambda>display_data.
       Inr (display_message (\<lambda>c. JStr [c]) JInt display_data))"

section \<open>The display sender and the relay queue\<close>

text \<open>
  The two tasks of a script are coroutines on one event loop: they interleave only where
  one of them awaits. \<open>asyncio.Queue()\<close> is unbounded and first-in first-out, so
  \<open>put\<close> appends at the tail without suspending and \<open>get\<close> takes the head, waiting
  while the queue is empty. The state of the relay is the queue, the snapshot the sender
  holds in \<open>values\<close> between its \<open>get\<close> and the end of the round (with the frame
  computed from it), the frames delivered to the display socket so far, each with the
  snapshot it was made from, and the exception that ended the sender task, if any.
\<close>

record ('v, 'j) relay =
  queue :: "'v list"
  in_flight :: "('v \<times> 'j) option"
  sent :: "('v \<times> 'j) list"
  crashed :: "py_error option"

datatype 'v event =
    Put 'v          \<comment> \<open>the feed client's \<open>await queue.put(new_values)\<close>\<close>
  | Get             \<comment> \<open>the sender's \<open>await queue.get()\<close> returns, the frame is computed\<close>
  | Send_ok         \<comment> \<open>\<open>await websocket.send(display_json)\<close> returns\<close>
  | Send_closed     \<comment> \<open>\<open>await websocket.send(display_json)\<close> raises ConnectionClosed\<close>
  | Body_done       \<comment> \<open>the \<open>try\<close> body of a round ends without having sent\<close>

text \<open>
  \<open>handle_display_update\<close> of the ToLiss, Zibo and FlightFactor scripts, one event at a
  time; \<open>None\<close> when the event cannot happen in the state. The frame is computed outside
  the \<open>try\<close>, so an exception of the decoder ends the task and the snapshot is gone. On
  ConnectionClosed the snapshot is put back and the loop is left; the enclosing
  \<open>async for\<close> reconnects and the next round starts with \<open>get\<close>.
\<close>

fun handle_display_update ::
  "('v \<Rightarrow> py_error + 'j) \<Rightarrow> 'v event \<Rightarrow> ('v, 'j) relay \<Rightarrow> ('v, 'j) relay option" where
  "handle_display_update gen (Put v) r = Some (r\<lparr>queue := queue r @ [v]\<rparr>)"
| "handle_display_update gen Get r =
     (case (crashed r, in_flight r, queue r) of
        (None, None, values # q) \<Rightarrow>
          (case gen values of
             Inr display_json \<Rightarrow> Some (r\<lparr>queue := q, in_flight := Some (values, display_json)\<rparr>)
           | Inl e \<Rightarrow> Some (r\<lparr>queue := q, crashed := Some e\<rparr>))
      | _ \<Rightarrow> None)"
| "handle_display_update gen Send_ok r =
     (case (crashed r, in_flight r) of
        (None, Some (values, display_json)) \<Rightarrow>
          Some (r\<lparr>in_flight := None, sent := sent r @ [(values, display_json)]\<rparr>)
      | _ \<Rightarrow> None)"
| "handle_display_update gen Send_closed r =
     (case (crashed r, in_flight r) of
        (None, Some (values, display_json)) \<Rightarrow>
          Some (r\<lparr>in_flight := None, queue := queue r @ [values]\<rparr>)
      | _ \<Rightarrow> None)"
| "handle_display_update gen Body_done r = None"

text \<open>
  \<open>handle_device_update\<close> of the X-Crafts script. The call of \<open>websocket.send\<close> is
  commented out there: a round takes a snapshot, computes \<open>generate_display_json\<close>
  inside the \<open>try\<close> and ends, so nothing in the \<open>try\<close> raises ConnectionClosed.
\<close>

fun handle_device_update ::
  "('v \<Rightarrow> py_error + 'j) \<Rightarrow> 'v event \<Rightarrow> ('v, 'j) relay \<Rightarrow> ('v, 'j) relay option" where
  "handle_device_update gen (Put v) r = Some (r\<lparr>queue := queue r @ [v]\<rparr>)"
| "handle_device_update gen Get r =
     (case (crashed r, in_flight r, queue r) of
        (None, None, values # q) \<Rightarrow>
          (case gen values of
             Inr display_json \<Rightarrow> Some (r\<lparr>queue := q, in_flight := Some (values, display_json)\<rparr>)
           | Inl e \<Rightarrow> Some (r\<lparr>queue := q, crashed := Some e\<rparr>))
      | _ \<Rightarrow> None)"
| "handle_device_update gen Body_done r =
     (case (crashed r, in_flight r) of
        (None, Some (values, display_json)) \<Rightarrow> Some (r\<lparr>in_flight := None\<rparr>)
      | _ \<Rightarrow> None)"
| "handle_device_update gen Send_ok r = None"
| "handle_device_update gen Send_closed r = None"

text \<open>A run: the events happen one after the other.\<close>

fun run :: "('e \<Rightarrow> 's \<Rightarrow> 's option) \<Rightarrow> 'e list \<Rightarrow> 's \<Rightarrow> 's option" where
  "run step [] s = Some s"
| "run step (e # es) s = (case step e s of None \<Rightarrow> None | Some s' \<Rightarrow> run step es s')"

definition startup :: "('v, 'j) relay" where
  "startup = \<lparr>queue = [], in_flight = None, sent = [], crashed = None\<rparr>"

text \<open>The snapshots a relay state accounts for, and the snapshots the feed put in.\<close>

definition accounted :: "('v, 'j) relay \<Rightarrow> 'v multiset" where
  "accounted r =
     mset (queue r) + mset (map fst (sent r))
       + (case in_flight r of None \<Rightarrow> {#} | Some (v, j) \<Rightarrow> {#v#})"

fun puts :: "'v event list \<Rightarrow> 'v list" where
  "puts [] = []"
| "puts (Put v # es) = v # puts es"
| "puts (e # es) = puts es"

text \<open>
  What a run appends to the queue and which sends it completes, in the order of the
  events: \<open>put\<close> and the requeue append a snapshot; a send that returns is a successful
  attempt for the snapshot in flight, a send that raises ConnectionClosed a failed one.
  \<open>along f step es s\<close> collects \<open>f\<close> over the events of a run, up to the first event
  that cannot happen.
\<close>

fun enqueued :: "'v event \<Rightarrow> ('v, 'j) relay \<Rightarrow> 'v list" where
  "enqueued (Put v) r = [v]"
| "enqueued Send_closed r = (case in_flight r of Some (v, j) \<Rightarrow> [v] | None \<Rightarrow> [])"
| "enqueued e r = []"

fun attempt :: "'v event \<Rightarrow> ('v, 'j) relay \<Rightarrow> ('v \<times> bool) list" where
  "attempt Send_ok r = (case in_flight r of Some (v, j) \<Rightarrow> [(v, True)] | None \<Rightarrow> [])"
| "attempt Send_closed r = (case in_flight r of Some (v, j) \<Rightarrow> [(v, False)] | None \<Rightarrow> [])"
| "attempt e r = []"

fun along :: "('e \<Rightarrow> 's \<Rightarrow> 'a list) \<Rightarrow> ('e \<Rightarrow> 's \<Rightarrow> 's option) \<Rightarrow> 'e list \<Rightarrow> 's \<Rightarrow> 'a list" where
  "along f step [] s = []"
| "along f step (e # es) s =
     (case step e s of None \<Rightarrow> [] | Some s' \<Rightarrow> f e s @ along f step es s')"

definition attempts :: "('v \<Rightarrow> py_error + 'j) \<Rightarrow> 'v event list \<Rightarrow> ('v, 'j) relay \<Rightarrow> ('v \<times> bool) list" where
  "attempts gen = along attempt (handle_display_update gen)"

definition appended :: "('v \<Rightarrow> py_error + 'j) \<Rightarrow> 'v event list \<Rightarrow> ('v, 'j) relay \<Rightarrow> 'v list" where
  "appended gen = along enqueued (handle_display_update gen)"

text \<open>The snapshot the sender holds, as a list.\<close>

definition holding :: "('v, 'j) relay \<Rightarrow> 'v list" where
  "holding r = (case in_flight r of None \<Rightarrow> [] | Some (v, j) \<Rightarrow> [v])"

section \<open>The feed client\<close>

text \<open>
  \<open>base64.b64decode(value).decode()\<close> is library code: it is the parameter \<open>b64\<close>, with
  \<open>None\<close> where it raises (both of its exceptions are ValueErrors). A JSON value of an
  update is a string, a number, null or an array. \<open>.replace("\x00", " ")\<close> is written
  out.
\<close>

definition b64_text :: "(ustring \<Rightarrow> ustring option) \<Rightarrow> pyval \<Rightarrow> py_error + ustring" where
  "b64_text b64 v =
     (case v of
        PStr s \<Rightarrow> (case b64 s of
                     None \<Rightarrow> Inl ValueError
                   | Some t \<Rightarrow> Inr (map (\<lambda>c. if c = Lat (CHR 0x00) then Lat CHR '' '' else c) t))
      | _ \<Rightarrow> Inl TypeError)"

definition rjust :: "ustring \<Rightarrow> nat \<Rightarrow> ustring" where
  "rjust s n = replicate (n - length s) (Lat CHR '' '') @ s"

definition process_slew_keys :: "pyval \<Rightarrow> ustring" where
  "process_slew_keys v =
     rjust (if v = PInt 1 then [UP_ARROW, DOWN_ARROW]
            else if v = PInt 2 then [UP_ARROW, Lat CHR '' '']
            else if v = PInt 3 then [DOWN_ARROW]
            else []) 24"

text \<open>The value stored for a dataref, per script.\<close>

definition decode_toliss ::
  "(ustring \<Rightarrow> ustring option) \<Rightarrow> ustring \<Rightarrow> pyval \<Rightarrow> py_error + ustring" where
  "decode_toliss b64 dataref_name v =
     (if dataref_name = str ''AirbusFBW/MCDU1VertSlewKeys'' then Inr (process_slew_keys v)
      else b64_text b64 v)"

definition decode_zibo ::
  "(ustring \<Rightarrow> ustring option) \<Rightarrow> ustring \<Rightarrow> pyval \<Rightarrow> py_error + ustring" where
  "decode_zibo b64 dataref_name v = b64_text b64 v"

definition decode_passthrough ::
  "(ustring \<Rightarrow> ustring option) \<Rightarrow> ustring \<Rightarrow> pyval \<Rightarrow> py_error + pyval" where
  "decode_passthrough b64 dataref_name v =
     (case v of PStr s \<Rightarrow> on_ok (b64_text b64 v) (\<lambda>t. Inr (PStr t)) | _ \<Rightarrow> Inr v)"

text \<open>
  \<open>a == b\<close> on dicts compares them as mappings, whatever the order of their keys.
\<close>

definition dict_eq :: "('k \<times> 'v) list \<Rightarrow> ('k \<times> 'v) list \<Rightarrow> bool" where
  "dict_eq a b = list_all (\<lambda>k. map_of a k = map_of b k) (map fst a @ map fst b)"

text \<open>
  \<open>last_known_values = new_values\<close> makes both names refer to one dict object, and
  \<open>queue.put(new_values)\<close> puts a reference to that object into the queue. The dicts
  therefore live in a store: \<open>heap\<close> maps an address to the dict there, \<open>next_addr\<close> is
  the first unused address, \<open>last_known_values\<close> and the entries of the queue are
  addresses. \<open>compares\<close> counts the evaluations of \<open>new_values == last_known_values\<close>.
\<close>

record 'v feed =
  heap :: "nat \<Rightarrow> (ustring \<times> 'v) list"
  next_addr :: nat
  last_known_values :: nat
  queue_refs :: "nat list"
  compares :: nat

text \<open>\<open>store f a d\<close>: the dict at address \<open>a\<close> becomes \<open>d\<close>.\<close>

definition store :: "'v feed \<Rightarrow> nat \<Rightarrow> (ustring \<times> 'v) list \<Rightarrow> 'v feed" where
  "store f a d = f\<lparr>heap := (heap f)(a := d)\<rparr>"

text \<open>
  The loop \<open>for dataref_id, value in data["data"].items()\<close> of the ToLiss and Zibo
  scripts: the comparison, the adoption and the \<open>put\<close> are inside the loop.
\<close>

fun updates_per_key ::
  "(ustring \<Rightarrow> pyval \<Rightarrow> py_error + 'v) \<Rightarrow> (int \<times> ustring) list \<Rightarrow> (int \<times> pyval) list
     \<Rightarrow> nat \<Rightarrow> 'v feed \<Rightarrow> py_error + 'v feed" where
  "updates_per_key decode dataref_map [] new_values f = Inr f"
| "updates_per_key decode dataref_map ((dataref_id, v) # rest) new_values f =
     (case map_of dataref_map dataref_id of
        None \<Rightarrow> updates_per_key decode dataref_map rest new_values f
      | Some dataref_name \<Rightarrow>
          on_ok (decode dataref_name v) (\<lambda>d.
            let f1 = (store f new_values (AList.update dataref_name d (heap f new_values)))
                       \<lparr>compares := compares f + 1\<rparr>
            in if dict_eq (heap f1 new_values) (heap f1 (last_known_values f1))
               then updates_per_key decode dataref_map rest new_values f1
               else updates_per_key decode dataref_map rest new_values
                      (f1\<lparr>last_known_values := new_values,
                          queue_refs := queue_refs f1 @ [new_values]\<rparr>)))"

text \<open>The same loop in the FlightFactor and X-Crafts scripts: it only overlays.\<close>

fun updates_overlay ::
  "(ustring \<Rightarrow> pyval \<Rightarrow> py_error + 'v) \<Rightarrow> (int \<times> ustring) list \<Rightarrow> (int \<times> pyval) list
     \<Rightarrow> nat \<Rightarrow> 'v feed \<Rightarrow> py_error + 'v feed" where
  "updates_overlay decode dataref_map [] new_values f = Inr f"
| "updates_overlay decode dataref_map ((dataref_id, v) # rest) new_values f =
     (case map_of dataref_map dataref_id of
        None \<Rightarrow> updates_overlay decode dataref_map rest new_values f
      | Some dataref_name \<Rightarrow>
          on_ok (decode dataref_name v) (\<lambda>d.
            updates_overlay decode dataref_map rest new_values
              (store f new_values (AList.update dataref_name d (heap f new_values)))))"

text \<open>\<open>new_values = dict(last_known_values)\<close>: a copy at a fresh address.\<close>

definition copy_last_known :: "'v feed \<Rightarrow> 'v feed" where
  "copy_last_known f =
     (store f (next_addr f) (heap f (last_known_values f)))\<lparr>next_addr := next_addr f + 1\<rparr>"

text \<open>The handling of one message that has a \<open>"data"\<close> member, per script.\<close>

definition message_per_key ::
  "(ustring \<Rightarrow> pyval \<Rightarrow> py_error + 'v) \<Rightarrow> (int \<times> ustring) list \<Rightarrow> (int \<times> pyval) list
     \<Rightarrow> 'v feed \<Rightarrow> py_error + 'v feed" where
  "message_per_key decode dataref_map data f =
     updates_per_key decode dataref_map data (next_addr f) (copy_last_known f)"

definition message_once ::
  "(ustring \<Rightarrow> pyval \<Rightarrow> py_error + 'v) \<Rightarrow> (int \<times> ustring) list \<Rightarrow> (int \<times> pyval) list
     \<Rightarrow> 'v feed \<Rightarrow> py_error + 'v feed" where
  "message_once decode dataref_map data f =
     on_ok (updates_overlay decode dataref_map data (next_addr f) (copy_last_known f)) (\<lambda>f1.
       let f2 = f1\<lparr>compares := compares f1 + 1\<rparr>
       in if dict_eq (heap f2 (next_addr f)) (heap f2 (last_known_values f2)) then Inr f2
          else Inr (f2\<lparr>last_known_values := next_addr f,
                       queue_refs := queue_refs f2 @ [next_addr f]\<rparr>))"

definition handle_datarefs_toliss where
  "handle_datarefs_toliss b64 = message_per_key (decode_toliss b64)"

definition handle_datarefs_zibo where
  "handle_datarefs_zibo b64 = message_per_key (decode_zibo b64)"

definition handle_datarefs_ff where
  "handle_datarefs_ff b64 = message_once (decode_passthrough b64)"

definition handle_dataref_updates where
  "handle_dataref_updates b64 = message_once (decode_passthrough b64)"

text \<open>
  The state of a feed client before its first message: \<open>last_known_values = {}\<close> and
  an empty queue.
\<close>

definition feed_start :: "'v feed" where
  "feed_start =
     \<lparr>heap = (\<lambda>a. []), next_addr = 1, last_known_values = 0, queue_refs = [], compares = 0\<rparr>"

text \<open>The dicts in the queue, as the sender will find them.\<close>

definition queued :: "'v feed \<Rightarrow> (ustring \<times> 'v) list list" where
  "queued f = map (heap f) (queue_refs f)"

text \<open>
  The candidate snapshot of a message: all its decoded updates laid over a snapshot, in
  the order of the message.
\<close>

fun overlay ::
  "(ustring \<Rightarrow> pyval \<Rightarrow> py_error + 'v) \<Rightarrow> (int \<times> ustring) list \<Rightarrow> (int \<times> pyval) list
     \<Rightarrow> (ustring \<times> 'v) list \<Rightarrow> py_error + (ustring \<times> 'v) list" where
  "overlay decode dataref_map [] snapshot = Inr snapshot"
| "overlay decode dataref_map ((dataref_id, v) # rest) snapshot =
     (case map_of dataref_map dataref_id of
        None \<Rightarrow> overlay decode dataref_map rest snapshot
      | Some dataref_name \<Rightarrow>
          on_ok (decode dataref_name v) (\<lambda>d.
            overlay decode dataref_map rest (AList.update dataref_name d snapshot)))"

text \<open>The updates of a message whose id is in the catalog, and their dataref names.\<close>

definition known :: "(int \<times> ustring) list \<Rightarrow> (int \<times> pyval) list \<Rightarrow> (int \<times> pyval) list" where
  "known dataref_map data = filter (\<lambda>(i, v). map_of dataref_map i \<noteq> None) data"

definition known_names :: "(int \<times> ustring) list \<Rightarrow> (int \<times> pyval) list \<Rightarrow> ustring list" where
  "known_names dataref_map data = map (\<lambda>(i, v). dict_get dataref_map i []) (known dataref_map data)"

text \<open>The populated cells of a grid, in the order of the grid.\<close>

definition populated :: "('c, 's) grid \<Rightarrow> ('c, 's) cell list" where
  "populated g = List.map_filter id g"

section \<open>Auxiliary notions for the proofs\<close>

text \<open>
  A fragment of \<open>base64.b64decode(v).decode()\<close>, for closed examples:
  \<open>"QQ=="\<close> is the encoding of \<open>"A"\<close> and \<open>"Qg=="\<close> that of \<open>"B"\<close>.
\<close>

definition b64_fragment :: "ustring \<Rightarrow> ustring option" where
  "b64_fragment s =
     (if s = str ''QQ=='' then Some (str ''A'')
      else if s = str ''Qg=='' then Some (str ''B'')
      else None)"

text \<open>
  The decoded updates of a message, in its order (the exception of the first update
  that does not decode, if there is one), and a list of updates laid over a snapshot.
\<close>

fun decoded ::
  "(ustring \<Rightarrow> pyval \<Rightarrow> py_error + 'v) \<Rightarrow> (int \<times> ustring) list \<Rightarrow> (int \<times> pyval) list
     \<Rightarrow> py_error + (ustring \<times> 'v) list" where
  "decoded decode dataref_map [] = Inr []"
| "decoded decode dataref_map ((dataref_id, v) # rest) =
     (case map_of dataref_map dataref_id of
        None \<Rightarrow> decoded decode dataref_map rest
      | Some dataref_name \<Rightarrow>
          on_ok (decode dataref_name v) (\<lambda>d.
            on_ok (decoded decode dataref_map rest) (\<lambda>us. Inr ((dataref_name, d) # us))))"

definition lay :: "(ustring \<times> 'v) list \<Rightarrow> (ustring \<times> 'v) list \<Rightarrow> (ustring \<times> 'v) list" where
  "lay us snapshot = fold (\<lambda>(k, d). AList.update k d) us snapshot"

text \<open>The loop of \<open>updates_per_key\<close> over updates that are already decoded.\<close>

fun keys_loop :: "(ustring \<times> 'v) list \<Rightarrow> nat \<Rightarrow> 'v feed \<Rightarrow> 'v feed" where
  "keys_loop [] n f = f"
| "keys_loop ((k, d) # us) n f =
     (let f1 = (store f n (AList.update k d (heap f n)))\<lparr>compares := compares f + 1\<rparr>
      in if dict_eq (heap f1 n) (heap f1 (last_known_values f1)) then keys_loop us n f1
         else keys_loop us n (f1\<lparr>last_known_values := n, queue_refs := queue_refs f1 @ [n]\<rparr>))"

text \<open>No dataref name in a grouping is the empty string.\<close>

definition nonempty_keys :: "(int \<times> (ustring \<times> 'v) list) list \<Rightarrow> bool" where
  "nonempty_keys g = (\<forall>n ds k v. (n, ds) \<in> set g \<longrightarrow> (k, v) \<in> set ds \<longrightarrow> k \<noteq> [])"






section \<open>Basic facts\<close>

lemma on_ok_Inr: "on_ok m f = Inr y \<longleftrightarrow> (\<exists>x. m = Inr x \<and> f x = Inr y)"
  by (cases m) (auto simp: on_ok_def)

lemma on_ok_simps [simp]: "on_ok (Inr x) f = f x" "on_ok (Inl e) f = Inl e"
  by (simp_all add: on_ok_def)



lemma py_setitem_length: "py_setitem xs i v = Inr ys \<Longrightarrow> length ys = length xs"
  by (auto simp: py_setitem_def split: if_splits)


section \<open>The end-to-end scenarios\<close>

text \<open>
  Claim C3, as the spec states it: for the ToLiss snapshot
  \<open>{"AirbusFBW/MCDU1title1": "FUEL PRED "}\<close> the cells 0 to 9 of row 0 hold the characters
  of the text with colour \<open>"w"\<close> and size 0. The code takes the colour of such a dataref
  from the last character of its name: cell 0 is not \<open>('F', "w", 0)\<close>.
\<close>

theorem toliss_title_scenario_not_white:
  "cell_at (display_data_toliss [(str ''AirbusFBW/MCDU1title1'', str ''FUEL PRED '')]) 0
     \<noteq> Inr (Some (Lat CHR ''F'', Lat CHR ''w'', 0))"
  by code_simp

text \<open>
  Claim C3, amended: for that snapshot the grid holds F, U, E, L in cells 0 to 3 and
  P, R, E, D in cells 5 to 8 of row 0, each with the colour \<open>"1"\<close> (the last character of
  the dataref name, for which the colour table has no entry) and size 0; the cells 4
  and 9, where the text has a space, and every cell from column 10 onward are empty.
\<close>

theorem toliss_title_scenario:
  "display_data_toliss [(str ''AirbusFBW/MCDU1title1'', str ''FUEL PRED '')]
   = Inr ([Some (Lat CHR ''F'', Lat CHR ''1'', 0), Some (Lat CHR ''U'', Lat CHR ''1'', 0),
           Some (Lat CHR ''E'', Lat CHR ''1'', 0), Some (Lat CHR ''L'', Lat CHR ''1'', 0), None,
           Some (Lat CHR ''P'', Lat CHR ''1'', 0), Some (Lat CHR ''R'', Lat CHR ''1'', 0),
           Some (Lat CHR ''E'', Lat CHR ''1'', 0), Some (Lat CHR ''D'', Lat CHR ''1'', 0), None]
          @ replicate 326 None)"
  by code_simp

text \<open>
  Claim C1, as the spec states it: the X-Crafts value \<open>"011310RTE"\<close> is parsed as row 0,
  column 0, size 1, colour 3, and cell 0 of the grid is \<open>('R', colour for 3, 1)\<close>.
  Neither holds: the fields are not \<open>(0, 0, 1, 3)\<close> and cell 0 is another value.
\<close>

theorem xcrafts_rte_scenario_not_as_stated:
  "packed_fields (str ''011310RTE'') \<noteq> Inr (0, 0, 1, 3, str ''RTE'')
   \<and> cell_at (translate_values [(str ''XCrafts/FMS/CDU_1_03'', PStr (str ''011310RTE''))]) 0
       \<noteq> Inr (Some (Lat CHR ''R'', get_color_xcrafts 3, 1))"
  by code_simp

text \<open>
  Claim C1, amended: the six-digit prefix of \<open>"011310RTE"\<close> is read as two digits of
  row, two of column, one of size and one of colour, the two indices made 0-based:
  row 0, column 12, size 1, colour 0, text \<open>"RTE"\<close>. The grid has 336 cells, and its
  populated cells are, in order, R, T and E, each with the colour for 0 and size 1.
\<close>

theorem xcrafts_rte_scenario:
  "packed_fields (str ''011310RTE'') = Inr (0, 12, 1, 0, str ''RTE'')
   \<and> map_sum id populated
        (translate_values [(str ''XCrafts/FMS/CDU_1_03'', PStr (str ''011310RTE''))])
       = Inr [(Lat CHR ''R'', get_color_xcrafts 0, 1), (Lat CHR ''T'', get_color_xcrafts 0, 1),
              (Lat CHR ''E'', get_color_xcrafts 0, 1)]
   \<and> map_sum id length
        (translate_values [(str ''XCrafts/FMS/CDU_1_03'', PStr (str ''011310RTE''))])
       = Inr 336"
  by code_simp

section \<open>Where a script departs from the others\<close>

text \<open>
  Claim C2 (every \<open>generate_display_json\<close> returns the wire-format string, never an
  absent result, and that string is sent): the X-Crafts function returns \<open>None\<close> for a
  snapshot it decodes without error.
\<close>

theorem xcrafts_generate_display_json_returns_none:
  "generate_display_json_xcrafts Captain
     [(str ''XCrafts/FMS/CDU_1_03'', PStr (str ''011310RTE''))] = Inr None"
  by code_simp

text \<open>
  Claim C5 (every decoder is total on snapshots with known keys; a malformed value or an
  unexpected grouping key is skipped): the Zibo grouping raises on a key without a line
  number, the FlightFactor decoder on a snapshot that lacks one of its three datarefs,
  the X-Crafts decoder on a value without the numeric prefix and on a numeric value.
\<close>

theorem decoders_raise:
  "display_data_zibo [(str ''laminar/B738/fmc1/exec_light'', str ''A'')] = Inl ValueError
   \<and> display_data_ff [(SYMBOLS, PStr (str ''A''))] = Inl KeyError
   \<and> translate_values [(str ''XCrafts/FMS/CDU_1_01'', PStr (str ''NO FUNCTION''))]
       = Inl ValueError
   \<and> translate_values [(str ''XCrafts/FMS/CDU_1_01'', PInt 5)] = Inl AttributeError"
  by code_simp

text \<open>
  Claim C6 (a character at logical position (row, col) is stored at index
  \<open>row * 24 + col\<close>, and no write leaves the range of the grid): the X-Crafts decoder
  writes at \<open>index + char_index - 1\<close>. For the text \<open>"AB"\<close> at row 1, column 1 of the
  simulator, logical position (0, 0), the index of \<open>'A'\<close> is \<open>-1\<close>, which Python takes
  as the last cell, 335; \<open>'B'\<close>, at logical position (0, 1), lands in cell 0. For the
  same text at row 15 the index of \<open>'B'\<close> is 336, beyond the grid, and the assignment
  raises.
\<close>

theorem xcrafts_index_off_by_one:
  "translate_values [(str ''XCrafts/FMS/CDU_1_01'', PStr (str ''010110AB''))]
     = Inr ((replicate 336 None)
              [335 := Some (Lat CHR ''A'', Lat CHR ''w'', 1),
               0 := Some (Lat CHR ''B'', Lat CHR ''w'', 1)])
   \<and> translate_values [(str ''XCrafts/FMS/CDU_1_01'', PStr (str ''150110AB''))]
       = Inl IndexError"
  by code_simp

text \<open>
  Claim C8 (an empty or whitespace-only value is skipped, the other datarefs of the
  snapshot are still processed): the X-Crafts loop leaves at the first such value
  (\<open>break\<close>). With an empty value in front, the text of the second dataref never
  reaches the grid; without it, it does.
\<close>

theorem xcrafts_empty_value_ends_decoding:
  "translate_values [(str ''XCrafts/FMS/CDU_1_01'', PStr []),
                     (str ''XCrafts/FMS/CDU_1_03'', PStr (str ''011310RTE''))]
     = Inr (replicate 336 None)
   \<and> map_sum id populated
        (translate_values [(str ''XCrafts/FMS/CDU_1_03'', PStr (str ''011310RTE''))])
       \<noteq> Inr []"
  by code_simp

section \<open>The grids the decoders return\<close>

lemma py_setitem_ok:
  "i < length xs \<Longrightarrow> py_setitem xs (int i) v = Inr (xs[i := v])"
  by (simp add: py_setitem_def)


subsection \<open>FlightFactor\<close>



lemma line_chars:
  "set (map (\<lambda>(symbol, size', color).
               \<lparr>line_char = symbol, line_size = size', line_color = color\<rparr>)
          (zip s (zip sz co))) \<subseteq> {l. line_char l \<in> set s}"
  by (auto dest: set_zip_leftD)


lemma cols_ff_length: "cols_ff p row cols g = Inr g' \<Longrightarrow> length g' = length g"
proof (induction cols arbitrary: g)
  case Nil then show ?case by simp
next
  case (Cons col cols)
  then show ?case
    by (auto simp: on_ok_Inr Let_def split: if_splits dest!: py_setitem_length)
qed

lemma rows_ff_length: "rows_ff p rows g = Inr g' \<Longrightarrow> length g' = length g"
proof (induction rows arbitrary: g)
  case Nil then show ?case by simp
next
  case (Cons row rows)
  then show ?case by (auto simp: on_ok_Inr dest!: cols_ff_length)
qed

lemma display_data_ff_length:
  "display_data_ff values = Inr g \<Longrightarrow> length g = CDU_ROWS * CDU_COLUMNS"
  by (auto simp: display_data_ff_def on_ok_Inr dest!: rows_ff_length)

subsection \<open>X-Crafts\<close>

text \<open>Whenever the X-Crafts decoder returns, the grid has 336 cells.\<close>

lemma put_text_xcrafts_length:
  "put_text_xcrafts t index color sz g = Inr g' \<Longrightarrow> length g' = length g"
proof (induction t arbitrary: g)
  case Nil then show ?case by simp
next
  case (Cons a t)
  obtain ci ch where a: "a = (ci, ch)" by (cases a)
  from Cons show ?case unfolding a
    by (auto simp: on_ok_Inr split: if_splits dest!: py_setitem_length)
qed

lemma translate_items_length: "translate_items vs g = Inr g' \<Longrightarrow> length g' = length g"
proof (induction vs arbitrary: g)
  case Nil then show ?case by simp
next
  case (Cons a vs)
  obtain k val where a: "a = (k, val)" by (cases a)
  show ?case
  proof (cases val)
    case PNone with Cons a show ?thesis by simp
  next
    case (PInt n) with Cons a show ?thesis by simp
  next
    case (PList xs) with Cons a show ?thesis by simp
  next
    case (PStr v)
    with Cons a show ?thesis
      by (auto simp: on_ok_Inr split: if_splits dest!: put_text_xcrafts_length)
  qed
qed

lemma translate_values_length:
  "translate_values values = Inr g \<Longrightarrow> length g = CDU_ROWS * CDU_COLUMNS"
  by (auto simp: translate_values_def dest!: translate_items_length)

lemma in_update:
  "(a, b) \<in> set (AList.update k v al) \<Longrightarrow> (a, b) = (k, v) \<or> (a, b) \<in> set al"
  by (induction al) (auto split: if_splits)

lemma py_setslice_length:
  "a + length ys \<le> length xs \<Longrightarrow> length (py_setslice xs a (a + length ys) ys) = length xs"
  by (simp add: py_setslice_def)

lemma start_index_bound:
  "row < CDU_ROWS + 1 \<Longrightarrow>
   (if row > 0 then row - 1 else row) * CDU_COLUMNS + CDU_COLUMNS \<le> CDU_ROWS * CDU_COLUMNS"
  by (cases row) (simp_all add: CDU_ROWS_def CDU_COLUMNS_def)

subsection \<open>ToLiss\<close>

text \<open>
  The ToLiss decoder returns a grid of 336 cells for every snapshot whose values are
  strings: the grouping leaves out what it cannot group, and a grouped name is never
  empty, so \<open>dataref_name[-1]\<close> is defined.
\<close>

lemma put_chars_toliss_total:
  assumes "dataref \<noteq> []" and "\<forall>(i, ch) \<in> set cs. i < length lc"
  shows "\<exists>lc'. put_chars_toliss dataref cs lc = Inr lc' \<and> length lc' = length lc"
  using assms(2)
proof (induction cs arbitrary: lc)
  case Nil then show ?case by simp
next
  case (Cons c cs)
  obtain i ch where c: "c = (i, ch)" by (cases c)
  have i: "i < length lc" using Cons.prems by (simp add: c)
  have "\<exists>x. get_char_toliss dataref ch = Inr x"
    using assms(1) by (simp add: get_char_toliss_def py_last_def)
  then obtain x where x: "get_char_toliss dataref ch = Inr x" ..
  have "\<exists>y. get_color_toliss dataref ch = Inr y"
    using assms(1) by (simp add: get_color_toliss_def py_last_def)
  then obtain y where y: "get_color_toliss dataref ch = Inr y" ..
  show ?case
  proof (cases "ch = Lat CHR '' ''")
    case True
    with Cons show ?thesis by (simp add: c)
  next
    case False
    let ?lc1 = "lc[i := Some (x, y, get_size_toliss dataref)]"
    have "\<forall>(i, ch) \<in> set cs. i < length ?lc1" using Cons.prems by simp
    from Cons.IH[OF this] False show ?thesis
      by (simp add: c x y py_setitem_ok[OF i])
  qed
qed

lemma enumerate_take_bound:
  "\<forall>(i, ch) \<in> set (enumerate 0 (take n t)). i < n"
  by (auto simp: in_set_enumerate_eq)

lemma line_items_toliss_total:
  assumes "\<forall>(d, t) \<in> set ds. d \<noteq> []" and "length lc = CDU_COLUMNS"
  shows "\<exists>lc'. line_items_toliss ds row lc = Inr lc' \<and> length lc' = CDU_COLUMNS"
  using assms
proof (induction ds arbitrary: lc)
  case Nil then show ?case by simp
next
  case (Cons a ds)
  obtain d t where a: "a = (d, t)" by (cases a)
  have d: "d \<noteq> []" using Cons.prems(1) by (simp add: a)
  have r: "\<forall>(d, t) \<in> set ds. d \<noteq> []" using Cons.prems(1) by simp
  have "\<forall>(i, ch) \<in> set (enumerate 0 (take CDU_COLUMNS t)). i < length lc"
    using enumerate_take_bound[of CDU_COLUMNS t] Cons.prems(2) by simp
  from put_chars_toliss_total[OF d this] obtain lc1 where
    p: "put_chars_toliss d (enumerate 0 (take CDU_COLUMNS t)) lc = Inr lc1"
    and l: "length lc1 = CDU_COLUMNS" using Cons.prems(2) by auto
  show ?case
    using Cons.IH[OF r Cons.prems(2)] Cons.IH[OF r l] by (simp add: a p)
qed

lemma line_num_toliss_nonempty: "line_num_toliss d = Inr n \<Longrightarrow> d \<noteq> []"
  by (auto simp: line_num_toliss_def)

lemma nonempty_keys_update:
  assumes "nonempty_keys g" and "d \<noteq> []" and "g' = g \<or> g' = AList.update n [] g"
  shows "nonempty_keys (AList.update n (AList.update d v (dict_get g' n [])) g)"
proof -
  have inner: "k \<noteq> []" if "(k, w) \<in> set (dict_get g' n [])" for k w
  proof (cases "map_of g' n")
    case None with that show ?thesis by (simp add: dict_get_def)
  next
    case (Some ds)
    then have "(n, ds) \<in> set g'" by (rule map_of_SomeD)
    with assms(3) have "ds = [] \<or> (n, ds) \<in> set g"
      by (auto dest: in_update)
    with that Some assms(1) show ?thesis by (auto simp: dict_get_def nonempty_keys_def)
  qed
  show ?thesis unfolding nonempty_keys_def
  proof (intro allI impI)
    fix m ds k w
    assume 1: "(m, ds) \<in> set (AList.update n (AList.update d v (dict_get g' n [])) g)"
      and 2: "(k, w) \<in> set ds"
    from in_update[OF 1] show "k \<noteq> []"
    proof
      assume "(m, ds) = (n, AList.update d v (dict_get g' n []))"
      with 2 have "(k, w) \<in> set (AList.update d v (dict_get g' n []))" by simp
      from in_update[OF this] show ?thesis using assms(2) inner by auto
    next
      assume "(m, ds) \<in> set g"
      with 2 assms(1) show ?thesis by (auto simp: nonempty_keys_def)
    qed
  qed
qed

lemma nonempty_keys_update_empty:
  "nonempty_keys g \<Longrightarrow> nonempty_keys (AList.update n [] g)"
  unfolding nonempty_keys_def by (auto dest!: in_update)

lemma group_toliss_nonempty:
  "nonempty_keys g \<Longrightarrow> nonempty_keys (group_datarefs_by_line_toliss vals g)"
proof (induction vals arbitrary: g)
  case Nil then show ?case by simp
next
  case (Cons a vals)
  obtain d v where a: "a = (d, v)" by (cases a)
  show ?case
  proof (cases "line_num_toliss d")
    case (Inl e)
    with Cons show ?thesis by (simp add: a)
  next
    case (Inr n)
    then have d: "d \<noteq> []" by (rule line_num_toliss_nonempty)
    let ?g = "if n \<notin> fst ` set g then AList.update n [] g else g"
    have g: "nonempty_keys ?g" using Cons.prems by (simp add: nonempty_keys_update_empty)
    have "nonempty_keys (AList.update n (AList.update d v (dict_get ?g n [])) ?g)"
      by (rule nonempty_keys_update[OF g d]) simp
    from Cons.IH[OF this] show ?thesis by (simp add: a Inr Let_def)
  qed
qed

lemma row_step_toliss_total:
  assumes "nonempty_keys grouped" and "row < CDU_ROWS + 1"
    and "length dd = CDU_ROWS * CDU_COLUMNS"
  shows "\<exists>dd'. row_step_toliss grouped row dd = Inr dd'
           \<and> length dd' = CDU_ROWS * CDU_COLUMNS"
proof -
  let ?line = "dict_get grouped (int (if row > 0 then row div 2 else 0)) []"
  have k: "\<forall>(d, t) \<in> set ?line. d \<noteq> []"
  proof (cases "map_of grouped (int (if row > 0 then row div 2 else 0))")
    case None then show ?thesis by (simp add: dict_get_def)
  next
    case (Some ds)
    then have "(int (if row > 0 then row div 2 else 0), ds) \<in> set grouped"
      by (rule map_of_SomeD)
    with assms(1) Some show ?thesis by (auto simp: dict_get_def nonempty_keys_def)
  qed
  from line_items_toliss_total[OF k, of "replicate CDU_COLUMNS None" row]
  obtain lc where lc: "process_cdu_line_toliss ?line row = Inr lc"
    and l: "length lc = CDU_COLUMNS"
    by (auto simp: process_cdu_line_toliss_def)
  let ?s = "(if row > 0 then row - 1 else row) * CDU_COLUMNS"
  have "?s + length lc \<le> length dd" using start_index_bound[OF assms(2)] l assms(3) by simp
  then have "length (py_setslice dd ?s (?s + length lc) lc) = length dd"
    by (rule py_setslice_length)
  then show ?thesis using assms(3) lc l by (simp add: row_step_toliss_def Let_def)
qed

lemma rows_toliss_total:
  assumes "nonempty_keys grouped" and "\<forall>row \<in> set rows. row < CDU_ROWS + 1"
    and "length dd = CDU_ROWS * CDU_COLUMNS"
  shows "\<exists>dd'. rows_toliss grouped rows dd = Inr dd' \<and> length dd' = CDU_ROWS * CDU_COLUMNS"
  using assms(2,3)
proof (induction rows arbitrary: dd)
  case Nil then show ?case by simp
next
  case (Cons row rows)
  have "row < CDU_ROWS + 1" using Cons.prems(1) by simp
  from row_step_toliss_total[OF assms(1) this Cons.prems(2)] obtain d1 where
    d1: "row_step_toliss grouped row dd = Inr d1" "length d1 = CDU_ROWS * CDU_COLUMNS"
    by blast
  have "\<forall>row \<in> set rows. row < CDU_ROWS + 1" using Cons.prems(1) by simp
  from Cons.IH[OF this d1(2)] d1(1) show ?case by simp
qed

lemma display_data_toliss_total:
  "\<exists>g. display_data_toliss values = Inr g \<and> length g = CDU_ROWS * CDU_COLUMNS"
proof -
  have "nonempty_keys (group_datarefs_by_line_toliss values [])"
    by (rule group_toliss_nonempty) (simp add: nonempty_keys_def)
  then show ?thesis
    unfolding display_data_toliss_def by (rule rows_toliss_total) simp_all
qed

lemma generate_display_json_toliss_total:
  "\<exists>j. generate_display_json_toliss values = Inr j"
  using display_data_toliss_total[of "values"]
  by (auto simp: generate_display_json_toliss_def)

subsection \<open>Zibo\<close>

text \<open>Whenever the Zibo decoder returns, the grid has 336 cells.\<close>

lemma put_chars_zibo_length:
  "put_chars_zibo dataref cs lc = Inr lc' \<Longrightarrow> length lc' = length lc"
proof (induction cs arbitrary: lc)
  case Nil then show ?case by simp
next
  case (Cons c cs)
  obtain i ch where c: "c = (i, ch)" by (cases c)
  from Cons show ?case unfolding c
    by (auto simp: on_ok_Inr split: if_splits dest!: py_setitem_length)
qed

lemma line_items_zibo_length:
  "line_items_zibo ds row lc = Inr lc' \<Longrightarrow> length lc' = length lc"
proof (induction ds arbitrary: lc)
  case Nil then show ?case by simp
next
  case (Cons a ds)
  obtain d t where a: "a = (d, t)" by (cases a)
  from Cons show ?case unfolding a
    by (auto simp: on_ok_Inr split: if_splits dest!: put_chars_zibo_length)
qed

lemma row_step_zibo_length:
  assumes "row_step_zibo grouped row dd = Inr dd'" and "row < CDU_ROWS + 1"
    and "length dd = CDU_ROWS * CDU_COLUMNS"
  shows "length dd' = CDU_ROWS * CDU_COLUMNS"
proof (cases "row = 1")
  case True
  with assms show ?thesis by (simp add: row_step_zibo_def)
next
  case r: False
  let ?line = "dict_get grouped (int (if row > 0 then row div 2 else 0)) []"
  show ?thesis
  proof (cases "?line = []")
    case True
    with assms r show ?thesis by (simp add: row_step_zibo_def Let_def)
  next
    case False
    let ?s = "(if row > 0 then row - 1 else row) * CDU_COLUMNS"
    from False r assms(1) obtain lc where
      lc: "process_cdu_line_zibo ?line row = Inr lc"
      and dd': "dd' = py_setslice dd ?s (?s + CDU_COLUMNS) lc"
      by (auto simp: row_step_zibo_def Let_def on_ok_Inr)
    have l: "length lc = CDU_COLUMNS"
      using line_items_zibo_length[OF lc[unfolded process_cdu_line_zibo_def]] by simp
    have "?s + length lc \<le> length dd"
      using start_index_bound[OF assms(2)] l assms(3) by simp
    then have "length (py_setslice dd ?s (?s + length lc) lc) = length dd"
      by (rule py_setslice_length)
    then show ?thesis using assms(3) by (simp add: dd' l)
  qed
qed

lemma rows_zibo_length:
  assumes "rows_zibo grouped rows dd = Inr dd'" and "\<forall>row \<in> set rows. row < CDU_ROWS + 1"
    and "length dd = CDU_ROWS * CDU_COLUMNS"
  shows "length dd' = CDU_ROWS * CDU_COLUMNS"
  using assms
proof (induction rows arbitrary: dd)
  case Nil then show ?case by simp
next
  case (Cons row rows)
  from Cons.prems(1) obtain d1 where d1: "row_step_zibo grouped row dd = Inr d1"
    and r: "rows_zibo grouped rows d1 = Inr dd'" by (auto simp: on_ok_Inr)
  have "length d1 = CDU_ROWS * CDU_COLUMNS"
    using row_step_zibo_length[OF d1 _ Cons.prems(3)] Cons.prems(2) by simp
  with Cons.IH[OF r] Cons.prems(2) show ?case by simp
qed

lemma display_data_zibo_length:
  "display_data_zibo values = Inr g \<Longrightarrow> length g = CDU_ROWS * CDU_COLUMNS"
  by (auto simp: display_data_zibo_def on_ok_Inr dest!: rows_zibo_length)

subsection \<open>Spaces\<close>

text \<open>
  In the ToLiss, Zibo and FlightFactor decoders a space of the text does not touch the
  grid: a cell at which the loop sees only spaces keeps the value it had.
\<close>

lemma py_setitem_nat:
  "py_setitem xs (int j) v = Inr ys \<Longrightarrow> ys = xs[j := v]"
  by (auto simp: py_setitem_def split: if_splits)

lemma put_chars_toliss_keeps:
  assumes "put_chars_toliss dataref cs lc = Inr lc'"
    and "\<forall>ch. (i, ch) \<in> set cs \<longrightarrow> ch = Lat CHR '' ''"
  shows "lc' ! i = lc ! i"
  using assms
proof (induction cs arbitrary: lc)
  case Nil then show ?case by simp
next
  case (Cons c cs)
  obtain j ch where c: "c = (j, ch)" by (cases c)
  have r: "\<forall>ch. (i, ch) \<in> set cs \<longrightarrow> ch = Lat CHR '' ''" using Cons.prems(2) by simp
  show ?case
  proof (cases "ch = Lat CHR '' ''")
    case True
    with Cons.prems(1) have "put_chars_toliss dataref cs lc = Inr lc'" by (simp add: c)
    from Cons.IH[OF this r] show ?thesis .
  next
    case False
    then have ji: "j \<noteq> i" using Cons.prems(2) by (auto simp: c)
    from False Cons.prems(1) obtain v lc1 where
      s: "py_setitem lc (int j) v = Inr lc1" and p: "put_chars_toliss dataref cs lc1 = Inr lc'"
      by (auto simp: c on_ok_Inr)
    have "lc1 ! i = lc ! i" using py_setitem_nat[OF s] ji by simp
    with Cons.IH[OF p r] show ?thesis by simp
  qed
qed

lemma put_chars_zibo_keeps:
  assumes "put_chars_zibo dataref cs lc = Inr lc'"
    and "\<forall>ch. (i, ch) \<in> set cs \<longrightarrow> ch = Lat CHR '' ''"
  shows "lc' ! i = lc ! i"
  using assms
proof (induction cs arbitrary: lc)
  case Nil then show ?case by simp
next
  case (Cons c cs)
  obtain j ch where c: "c = (j, ch)" by (cases c)
  have r: "\<forall>ch. (i, ch) \<in> set cs \<longrightarrow> ch = Lat CHR '' ''" using Cons.prems(2) by simp
  show ?case
  proof (cases "ch = Lat CHR '' ''")
    case True
    with Cons.prems(1) have "put_chars_zibo dataref cs lc = Inr lc'" by (simp add: c)
    from Cons.IH[OF this r] show ?thesis .
  next
    case False
    then have ji: "j \<noteq> i" using Cons.prems(2) by (auto simp: c)
    from False Cons.prems(1) obtain v lc1 where
      s: "py_setitem lc (int j) v = Inr lc1" and p: "put_chars_zibo dataref cs lc1 = Inr lc'"
      by (auto simp: c on_ok_Inr)
    have "lc1 ! i = lc ! i" using py_setitem_nat[OF s] ji by simp
    with Cons.IH[OF p r] show ?thesis by simp
  qed
qed

text \<open>At a column where the text of a dataref has a space, the loop sees only that space.\<close>

lemma space_in_text:
  assumes "i < length t" and "i < n" and "t ! i = Lat CHR '' ''"
  shows "\<forall>ch. (i, ch) \<in> set (enumerate 0 (take n t)) \<longrightarrow> ch = Lat CHR '' ''"
  using assms by (auto simp: in_set_enumerate_eq)

lemma cols_ff_keeps:
  assumes "cols_ff p row cols g = Inr g'"
    and "\<forall>col \<in> set cols. row * CDU_COLUMNS + col = k \<longrightarrow> line_char (p ! k) = PStr [Lat CHR '' '']"
  shows "g' ! k = g ! k"
  using assms
proof (induction cols arbitrary: g)
  case Nil then show ?case by simp
next
  case (Cons col cols)
  let ?i = "row * CDU_COLUMNS + col"
  have r: "\<forall>col \<in> set cols. row * CDU_COLUMNS + col = k
             \<longrightarrow> line_char (p ! k) = PStr [Lat CHR '' '']"
    using Cons.prems(2) by simp
  from Cons.prems(1) have x: "py_index p ?i = Inr (p ! ?i)"
    by (auto simp: on_ok_Inr Let_def py_index_def split: if_splits)
  show ?case
  proof (cases "line_char (p ! ?i) = PStr [Lat CHR '' '']")
    case True
    with Cons.prems(1) x have "cols_ff p row cols g = Inr g'" by (simp add: Let_def)
    from Cons.IH[OF this r] show ?thesis .
  next
    case False
    then have ik: "?i \<noteq> k" using Cons.prems(2) by auto
    from False Cons.prems(1) x obtain v g1 where
      s: "py_setitem g (int ?i) v = Inr g1" and c: "cols_ff p row cols g1 = Inr g'"
      by (auto simp: on_ok_Inr Let_def simp del: of_nat_add of_nat_mult)
    have "g1 ! k = g ! k" using py_setitem_nat[OF s] ik by simp
    with Cons.IH[OF c r] show ?thesis by simp
  qed
qed

subsection \<open>Where a cell comes from\<close>























section \<open>Colours\<close>


















section \<open>The relay\<close>

lemma run_append:
  "run step (xs @ ys) s = (case run step xs s of None \<Rightarrow> None | Some s' \<Rightarrow> run step ys s')"
  by (induction xs arbitrary: s) (auto split: option.splits)

lemma run_puts:
  "run (handle_display_update gen) (map Put bs) r = Some (r\<lparr>queue := queue r @ bs\<rparr>)"
  by (induction bs arbitrary: r) auto

lemma step_accounted:
  assumes "handle_display_update gen e r = Some r'" and "crashed r' = None"
  shows "accounted r' = accounted r + mset (puts [e])"
  using assms
  by (cases e) (auto simp: accounted_def split: option.splits list.splits sum.splits prod.splits)

lemma step_crashed:
  assumes "handle_display_update gen e r = Some r'" and "crashed r' = None"
  shows "crashed r = None"
  using assms
  by (cases e) (auto split: option.splits list.splits sum.splits prod.splits)

lemma run_crashed:
  "run (handle_display_update gen) es r = Some r' \<Longrightarrow> crashed r' = None \<Longrightarrow> crashed r = None"
proof (induction es arbitrary: r)
  case Nil then show ?case by simp
next
  case (Cons e es)
  then obtain r1 where s: "handle_display_update gen e r = Some r1"
    and r: "run (handle_display_update gen) es r1 = Some r'"
    by (auto split: option.splits)
  from Cons.IH[OF r Cons.prems(2)] have "crashed r1 = None" .
  with s show ?case by (rule step_crashed)
qed

lemma puts_Cons: "puts (e # es) = puts [e] @ puts es"
  by (cases e) auto

lemma display_sender_conserves:
  "run (handle_display_update gen) es r = Some r' \<Longrightarrow> crashed r' = None
     \<Longrightarrow> accounted r' = accounted r + mset (puts es)"
proof (induction es arbitrary: r)
  case Nil then show ?case by simp
next
  case (Cons e es)
  then obtain r1 where s: "handle_display_update gen e r = Some r1"
    and r: "run (handle_display_update gen) es r1 = Some r'"
    by (auto split: option.splits)
  have c1: "crashed r1 = None" using run_crashed[OF r Cons.prems(2)] .
  have "accounted r' = accounted r1 + mset (puts es)" using Cons.IH[OF r Cons.prems(2)] .
  also have "accounted r1 = accounted r + mset (puts [e])" using step_accounted[OF s c1] .
  finally show ?case by (subst puts_Cons) simp
qed

lemma attempts_simps:
  "attempts gen [] r = []"
  "attempts gen (e # es) r =
     (case handle_display_update gen e r of None \<Rightarrow> []
      | Some r' \<Rightarrow> attempt e r @ attempts gen es r')"
  by (simp_all add: attempts_def split: option.splits)

lemma appended_simps:
  "appended gen [] r = []"
  "appended gen (e # es) r =
     (case handle_display_update gen e r of None \<Rightarrow> []
      | Some r' \<Rightarrow> enqueued e r @ appended gen es r')"
  by (simp_all add: appended_def split: option.splits)

lemma crashed_no_attempts: "crashed r \<noteq> None \<Longrightarrow> attempts gen es r = []"
proof (induction es arbitrary: r)
  case Nil then show ?case by (simp add: attempts_simps)
next
  case (Cons e es)
  show ?case
  proof (cases "handle_display_update gen e r")
    case None then show ?thesis by (simp add: attempts_simps)
  next
    case (Some r1)
    with Cons.prems have "crashed r1 \<noteq> None \<and> attempt e r = []"
      by (cases e) (auto split: option.splits)
    with Cons.IH[of r1] Some show ?thesis by (simp add: attempts_simps)
  qed
qed

lemma step_fifo:
  assumes "handle_display_update gen e r = Some r1" and "crashed r1 = None"
  shows "holding r @ queue r @ enqueued e r = map fst (attempt e r) @ holding r1 @ queue r1"
  using assms
  by (cases e)
     (auto simp: holding_def split: option.splits list.splits sum.splits prod.splits)

lemma fifo:
  "\<exists>rest. holding r @ queue r @ appended gen es r = map fst (attempts gen es r) @ rest"
proof (induction es arbitrary: r)
  case Nil then show ?case by (simp add: attempts_simps)
next
  case (Cons e es)
  show ?case
  proof (cases "handle_display_update gen e r")
    case None then show ?thesis by (simp add: attempts_simps)
  next
    case (Some r1)
    show ?thesis
    proof (cases "crashed r1")
      case None
      from Cons.IH[of r1] obtain rest where
        ih: "holding r1 @ queue r1 @ appended gen es r1 = map fst (attempts gen es r1) @ rest"
        by blast
      have "holding r @ queue r @ appended gen (e # es) r
            = (holding r @ queue r @ enqueued e r) @ appended gen es r1"
        using Some by (simp add: appended_simps)
      also have "\<dots> = map fst (attempt e r) @ holding r1 @ queue r1 @ appended gen es r1"
        using step_fifo[OF Some None] by simp
      also have "\<dots> = map fst (attempt e r) @ map fst (attempts gen es r1) @ rest"
        using ih by simp
      finally show ?thesis using Some by (simp add: attempts_simps)
    next
      case (Some err)
      then have 1: "attempts gen es r1 = []" by (intro crashed_no_attempts) simp
      have 2: "attempt e r = []"
        using \<open>handle_display_update gen e r = Some r1\<close> Some
        by (cases e) (auto split: option.splits list.splits sum.splits prod.splits)
      show ?thesis using \<open>handle_display_update gen e r = Some r1\<close> 1 2
        by (simp add: attempts_simps)
    qed
  qed
qed

lemma step_delivered:
  assumes "handle_display_update gen e r = Some r1"
  shows "map fst (sent r1) = map fst (sent r) @ map fst (filter snd (attempt e r))"
  using assms
  by (cases e) (auto split: option.splits list.splits sum.splits prod.splits)

lemma delivered:
  "run (handle_display_update gen) es r = Some r'
     \<Longrightarrow> map fst (sent r') = map fst (sent r) @ map fst (filter snd (attempts gen es r))"
proof (induction es arbitrary: r)
  case Nil then show ?case by (simp add: attempts_simps)
next
  case (Cons e es)
  then obtain r1 where s: "handle_display_update gen e r = Some r1"
    and r: "run (handle_display_update gen) es r1 = Some r'"
    by (auto split: option.splits)
  from Cons.IH[OF r] step_delivered[OF s] s show ?case by (simp add: attempts_simps)
qed

lemma fifo_take:
  assumes "in_flight r = None"
  shows "map fst (attempts gen es r)
         = take (length (attempts gen es r)) (queue r @ appended gen es r)"
proof -
  from fifo[of r gen es] obtain rest where
    "queue r @ appended gen es r = map fst (attempts gen es r) @ rest"
    using assms by (auto simp: holding_def)
  then show ?thesis by simp
qed


lemma nested_mp:
  "C \<and> F \<and> (r \<longrightarrow> D \<and> (n \<longrightarrow> X \<and> Y \<and> Z)) \<Longrightarrow> r \<Longrightarrow> n \<Longrightarrow> C \<and> F \<and> D \<and> X \<and> Y \<and> Z"
  by blast

text \<open>
  Claim C7 (a snapshot taken from the queue is never lost: it is sent or back in the
  queue): in the X-Crafts script the round that takes a snapshot ends without sending
  it and without putting it back. After \<open>put\<close>, \<open>get\<close> and the end of the round the
  queue is empty, nothing is in flight and nothing has been sent.
\<close>

theorem xcrafts_round_drops_snapshot:
  "map_option (\<lambda>r. (queue r, in_flight r, sent r))
     (run (handle_device_update (generate_display_json_xcrafts Captain))
        [Put [(str ''XCrafts/FMS/CDU_1_03'', PStr (str ''011310RTE''))], Get, Body_done]
        startup)
   = Some ([], None, [])"
  by code_simp

text \<open>
  Claim C10, as the spec states it: a newer snapshot B, enqueued after A was taken from
  the queue, is delivered before the retried A. When the send of B fails as well, B is
  requeued behind A: at the end of this run A has been delivered and B is still queued.
\<close>

theorem retried_frame_delivered_first:
  "map_option (\<lambda>r. (queue r, map fst (sent r)))
     (run (handle_display_update generate_display_json_toliss)
        [Put [(str ''AirbusFBW/MCDU1titlew'', str ''A'')], Get,
         Put [(str ''AirbusFBW/MCDU1titlew'', str ''B'')], Send_closed,
         Get, Send_closed, Get, Send_ok] startup)
   = Some ([[(str ''AirbusFBW/MCDU1titlew'', str ''B'')]],
           [[(str ''AirbusFBW/MCDU1titlew'', str ''A'')]])"
  by code_simp

text \<open>
  Claim C10, amended: the queue is first-in first-out and the requeue appends at the
  tail. When the sender takes A from the head of the queue, the feed client enqueues
  snapshots while A is in flight, and the send of A fails, then A is behind everything
  that was in the queue and everything enqueued meanwhile. In every continuation from
  there the sends are attempted in the order of the queue, so every snapshot that was
  ahead of A, a newer snapshot B among them, is tried before the retried A; the frames
  delivered are the successful attempts in that order, so B is delivered before A when
  its own send succeeds.
\<close>

theorem requeue_is_tail_append:
  assumes "gen a = Inr ja"
    and "R = \<lparr>queue = q @ bs @ [a], in_flight = None, sent = s, crashed = None\<rparr>"
  shows
    "run (handle_display_update gen) (Get # map Put bs @ [Send_closed])
       \<lparr>queue = a # q, in_flight = None, sent = s, crashed = None\<rparr> = Some R
     \<and> map fst (attempts gen evs R)
         = take (length (attempts gen evs R)) (q @ bs @ [a] @ appended gen evs R)
     \<and> (run (handle_display_update gen) evs R = Some r'
          \<longrightarrow> map fst (sent r') = map fst s @ map fst (filter snd (attempts gen evs R))
            \<and> (length (q @ bs) < length (attempts gen evs R)
                 \<longrightarrow> map fst (take (length (q @ bs)) (attempts gen evs R)) = q @ bs
                   \<and> fst (attempts gen evs R ! length (q @ bs)) = a
                   \<and> map fst (sent r')
                       = map fst s
                         @ map fst (filter snd (take (length (q @ bs)) (attempts gen evs R)))
                         @ map fst (filter snd (drop (length (q @ bs)) (attempts gen evs R)))))"
proof (intro conjI impI)
  show "run (handle_display_update gen) (Get # map Put bs @ [Send_closed])
       \<lparr>queue = a # q, in_flight = None, sent = s, crashed = None\<rparr> = Some R"
    using assms by (simp add: run_append run_puts)
  let ?at = "attempts gen evs R"
  let ?n = "length (q @ bs)"
  have "map fst ?at = take (length ?at) (queue R @ appended gen evs R)"
    by (rule fifo_take) (simp add: assms(2))
  then show f: "map fst ?at = take (length ?at) (q @ bs @ [a] @ appended gen evs R)"
    by (simp add: assms(2))
  {
    assume r: "run (handle_display_update gen) evs R = Some r'"
    from delivered[OF r]
    show d: "map fst (sent r') = map fst s @ map fst (filter snd ?at)"
      by (simp add: assms(2))
    assume n: "?n < length ?at"
    have "map fst (take ?n ?at) = take ?n (map fst ?at)" by (simp add: take_map)
    also have "\<dots> = take ?n (take (length ?at) (q @ bs @ [a] @ appended gen evs R))"
      using f by simp
    also have "\<dots> = q @ bs" using n by (simp add: min_def)
    finally show "map fst (take ?n ?at) = q @ bs" .
    have "fst (?at ! ?n) = map fst ?at ! ?n" using n by simp
    also have "\<dots> = take (length ?at) (q @ bs @ [a] @ appended gen evs R) ! ?n"
      using f by simp
    also have "\<dots> = (q @ bs @ [a] @ appended gen evs R) ! ?n" using n by (rule nth_take)
    also have "\<dots> = ((q @ bs) @ a # appended gen evs R) ! (length (q @ bs) + 0)" by simp
    also have "\<dots> = a" by (subst nth_append_length_plus) simp
    finally show "fst (?at ! ?n) = a" .
    have "filter snd ?at = filter snd (take ?n ?at) @ filter snd (drop ?n ?at)"
      by (metis append_take_drop_id filter_append)
    with d show "map fst (sent r')
         = map fst s @ map fst (filter snd (take ?n ?at)) @ map fst (filter snd (drop ?n ?at))"
      by simp
  }
qed


text \<open>
  Witness of claim C10: the amended statement for the ToLiss sender, two snapshots and
  the continuation in which both sends succeed.
\<close>

theorem requeue_is_tail_append_witness:
  "run (handle_display_update generate_display_json_toliss)
     (Get # map Put [[(str ''AirbusFBW/MCDU1titlew'', str ''B'')]] @ [Send_closed])
     \<lparr>queue = [(str ''AirbusFBW/MCDU1titlew'', str ''A'')] # [], in_flight = None, sent = [],
      crashed = None\<rparr>
     = Some \<lparr>queue = [] @ [[(str ''AirbusFBW/MCDU1titlew'', str ''B'')]]
                  @ [[(str ''AirbusFBW/MCDU1titlew'', str ''A'')]],
          in_flight = None, sent = [], crashed = None\<rparr>
   \<and> map fst (attempts generate_display_json_toliss [Get, Send_ok, Get, Send_ok]
        \<lparr>queue = [] @ [[(str ''AirbusFBW/MCDU1titlew'', str ''B'')]]
                    @ [[(str ''AirbusFBW/MCDU1titlew'', str ''A'')]],
            in_flight = None, sent = [], crashed = None\<rparr>)
       = take (length (attempts generate_display_json_toliss [Get, Send_ok, Get, Send_ok]
        \<lparr>queue = [] @ [[(str ''AirbusFBW/MCDU1titlew'', str ''B'')]]
                    @ [[(str ''AirbusFBW/MCDU1titlew'', str ''A'')]],
            in_flight = None, sent = [], crashed = None\<rparr>))
           ([] @ [[(str ''AirbusFBW/MCDU1titlew'', str ''B'')]] @ [[(str ''AirbusFBW/MCDU1titlew'', str ''A'')]]
             @ appended generate_display_json_toliss [Get, Send_ok, Get, Send_ok]
        \<lparr>queue = [] @ [[(str ''AirbusFBW/MCDU1titlew'', str ''B'')]]
                    @ [[(str ''AirbusFBW/MCDU1titlew'', str ''A'')]],
            in_flight = None, sent = [], crashed = None\<rparr>)
   \<and> map fst (sent (the (run (handle_display_update generate_display_json_toliss) [Get, Send_ok, Get, Send_ok]
        \<lparr>queue = [] @ [[(str ''AirbusFBW/MCDU1titlew'', str ''B'')]]
                    @ [[(str ''AirbusFBW/MCDU1titlew'', str ''A'')]],
            in_flight = None, sent = [], crashed = None\<rparr>)))
       = map fst ([] :: ((ustring \<times> ustring) list \<times> json) list) @ map fst (filter snd (attempts generate_display_json_toliss [Get, Send_ok, Get, Send_ok]
        \<lparr>queue = [] @ [[(str ''AirbusFBW/MCDU1titlew'', str ''B'')]]
                    @ [[(str ''AirbusFBW/MCDU1titlew'', str ''A'')]],
            in_flight = None, sent = [], crashed = None\<rparr>))
   \<and> map fst (take (length ([] @ [[(str ''AirbusFBW/MCDU1titlew'', str ''B'')]])) (attempts generate_display_json_toliss [Get, Send_ok, Get, Send_ok]
        \<lparr>queue = [] @ [[(str ''AirbusFBW/MCDU1titlew'', str ''B'')]]
                    @ [[(str ''AirbusFBW/MCDU1titlew'', str ''A'')]],
            in_flight = None, sent = [], crashed = None\<rparr>))
       = [] @ [[(str ''AirbusFBW/MCDU1titlew'', str ''B'')]]
   \<and> fst ((attempts generate_display_json_toliss [Get, Send_ok, Get, Send_ok]
        \<lparr>queue = [] @ [[(str ''AirbusFBW/MCDU1titlew'', str ''B'')]]
                    @ [[(str ''AirbusFBW/MCDU1titlew'', str ''A'')]],
            in_flight = None, sent = [], crashed = None\<rparr>) ! length ([] @ [[(str ''AirbusFBW/MCDU1titlew'', str ''B'')]])) = [(str ''AirbusFBW/MCDU1titlew'', str ''A'')]
   \<and> map fst (sent (the (run (handle_display_update generate_display_json_toliss) [Get, Send_ok, Get, Send_ok]
        \<lparr>queue = [] @ [[(str ''AirbusFBW/MCDU1titlew'', str ''B'')]]
                    @ [[(str ''AirbusFBW/MCDU1titlew'', str ''A'')]],
            in_flight = None, sent = [], crashed = None\<rparr>)))
       = map fst ([] :: ((ustring \<times> ustring) list \<times> json) list)
         @ map fst (filter snd (take (length ([] @ [[(str ''AirbusFBW/MCDU1titlew'', str ''B'')]])) (attempts generate_display_json_toliss [Get, Send_ok, Get, Send_ok]
        \<lparr>queue = [] @ [[(str ''AirbusFBW/MCDU1titlew'', str ''B'')]]
                    @ [[(str ''AirbusFBW/MCDU1titlew'', str ''A'')]],
            in_flight = None, sent = [], crashed = None\<rparr>)))
         @ map fst (filter snd (drop (length ([] @ [[(str ''AirbusFBW/MCDU1titlew'', str ''B'')]])) (attempts generate_display_json_toliss [Get, Send_ok, Get, Send_ok]
        \<lparr>queue = [] @ [[(str ''AirbusFBW/MCDU1titlew'', str ''B'')]]
                    @ [[(str ''AirbusFBW/MCDU1titlew'', str ''A'')]],
            in_flight = None, sent = [], crashed = None\<rparr>)))"
proof -
  have "\<not> isl (generate_display_json_toliss [(str ''AirbusFBW/MCDU1titlew'', str ''A'')])"
    by code_simp
  then have a: "generate_display_json_toliss [(str ''AirbusFBW/MCDU1titlew'', str ''A'')]
      = Inr (projr (generate_display_json_toliss [(str ''AirbusFBW/MCDU1titlew'', str ''A'')]))"
    by simp
  have "run (handle_display_update generate_display_json_toliss) [Get, Send_ok, Get, Send_ok]
        \<lparr>queue = [] @ [[(str ''AirbusFBW/MCDU1titlew'', str ''B'')]]
                    @ [[(str ''AirbusFBW/MCDU1titlew'', str ''A'')]],
            in_flight = None, sent = [], crashed = None\<rparr> \<noteq> None"
    by code_simp
  then have r: "run (handle_display_update generate_display_json_toliss) [Get, Send_ok, Get, Send_ok]
        \<lparr>queue = [] @ [[(str ''AirbusFBW/MCDU1titlew'', str ''B'')]]
                    @ [[(str ''AirbusFBW/MCDU1titlew'', str ''A'')]],
            in_flight = None, sent = [], crashed = None\<rparr>
      = Some (the (run (handle_display_update generate_display_json_toliss) [Get, Send_ok, Get, Send_ok]
        \<lparr>queue = [] @ [[(str ''AirbusFBW/MCDU1titlew'', str ''B'')]]
                    @ [[(str ''AirbusFBW/MCDU1titlew'', str ''A'')]],
            in_flight = None, sent = [], crashed = None\<rparr>))"
    by simp
  have n: "length ([] @ [[(str ''AirbusFBW/MCDU1titlew'', str ''B'')]])
      < length (attempts generate_display_json_toliss [Get, Send_ok, Get, Send_ok]
        \<lparr>queue = [] @ [[(str ''AirbusFBW/MCDU1titlew'', str ''B'')]]
                    @ [[(str ''AirbusFBW/MCDU1titlew'', str ''A'')]],
            in_flight = None, sent = [], crashed = None\<rparr>)"
    by code_simp
  show ?thesis
    by (rule nested_mp[OF requeue_is_tail_append[where gen = generate_display_json_toliss
        and a = "[(str ''AirbusFBW/MCDU1titlew'', str ''A'')]" and q = "[]"
        and bs = "[[(str ''AirbusFBW/MCDU1titlew'', str ''B'')]]" and s = "[]"
        and evs = "[Get, Send_ok, Get, Send_ok]"
        and r' = "the (run (handle_display_update generate_display_json_toliss) [Get, Send_ok, Get, Send_ok]
        \<lparr>queue = [] @ [[(str ''AirbusFBW/MCDU1titlew'', str ''B'')]]
                    @ [[(str ''AirbusFBW/MCDU1titlew'', str ''A'')]],
            in_flight = None, sent = [], crashed = None\<rparr>)",
        OF a refl] r n])
qed

section \<open>Change detection in the feed client\<close>

lemma heap_store [simp]: "heap (store f a d) b = (if b = a then d else heap f b)"
  by (simp add: store_def)

lemma store_fields [simp]:
  "next_addr (store f a d) = next_addr f"
  "last_known_values (store f a d) = last_known_values f"
  "queue_refs (store f a d) = queue_refs f"
  "compares (store f a d) = compares f"
  by (simp_all add: store_def)

lemma store_same [simp]: "store f a (heap f a) = f"
  by (simp add: store_def)

lemma store_store [simp]: "store (store f a d) a e = store f a e"
  by (simp add: store_def)

lemma dict_eq_iff: "dict_eq a b \<longleftrightarrow> map_of a = map_of b"
proof
  assume d: "dict_eq a b"
  show "map_of a = map_of b"
  proof
    fix k
    show "map_of a k = map_of b k"
    proof (cases "k \<in> fst ` set a \<union> fst ` set b")
      case True
      with d show ?thesis by (auto simp: dict_eq_def list_all_iff)
    next
      case False
      then have "map_of a k = None" "map_of b k = None"
        by (simp_all add: map_of_eq_None_iff)
      then show ?thesis by simp
    qed
  qed
next
  assume "map_of a = map_of b"
  then show "dict_eq a b" by (simp add: dict_eq_def list_all_iff)
qed

lemma lay_simps [simp]:
  "lay [] s = s" "lay ((k, d) # us) s = lay us (AList.update k d s)"
  by (simp_all add: lay_def)

lemma map_of_lay: "map_of (lay us s) = map_of s ++ map_of (rev us)"
proof (induction us arbitrary: s)
  case Nil then show ?case by simp
next
  case (Cons u us)
  obtain k d where u: "u = (k, d)" by (cases u)
  have "map_of (lay (u # us) s) = map_of (AList.update k d s) ++ map_of (rev us)"
    by (simp add: u Cons.IH)
  also have "map_of (AList.update k d s) = (map_of s)(k \<mapsto> d)"
    by (rule update_conv')
  also have "(map_of s)(k \<mapsto> d) ++ map_of (rev us) = map_of s ++ map_of (rev (u # us))"
    by (rule ext) (simp add: u map_add_def split: option.splits)
  finally show ?case .
qed

lemma overlay_decoded:
  "overlay dec m data s = on_ok (decoded dec m data) (\<lambda>us. Inr (lay us s))"
proof (induction data arbitrary: s)
  case Nil then show ?case by simp
next
  case (Cons a data)
  obtain i v where a: "a = (i, v)" by (cases a)
  show ?case
  proof (cases "map_of m i")
    case None then show ?thesis by (simp add: a Cons.IH)
  next
    case (Some name)
    show ?thesis
    proof (cases "dec name v")
      case (Inl e) then show ?thesis by (simp add: a Some)
    next
      case (Inr d)
      then show ?thesis
        by (cases "decoded dec m data") (simp_all add: a Some Cons.IH)
    qed
  qed
qed

lemma updates_per_key_decoded:
  "updates_per_key dec m data n f = on_ok (decoded dec m data) (\<lambda>us. Inr (keys_loop us n f))"
proof (induction data arbitrary: f)
  case Nil then show ?case by simp
next
  case (Cons a data)
  obtain i v where a: "a = (i, v)" by (cases a)
  show ?case
  proof (cases "map_of m i")
    case None then show ?thesis by (simp add: a Cons.IH)
  next
    case (Some name)
    show ?thesis
    proof (cases "dec name v")
      case (Inl e) then show ?thesis by (simp add: a Some)
    next
      case (Inr d)
      then show ?thesis
        by (cases "decoded dec m data") (simp_all add: a Some Cons.IH Let_def)
    qed
  qed
qed

lemma updates_overlay_decoded:
  "updates_overlay dec m data n f
     = on_ok (decoded dec m data) (\<lambda>us. Inr (store f n (lay us (heap f n))))"
proof (induction data arbitrary: f)
  case Nil then show ?case by simp
next
  case (Cons a data)
  obtain i v where a: "a = (i, v)" by (cases a)
  show ?case
  proof (cases "map_of m i")
    case None then show ?thesis by (simp add: a Cons.IH)
  next
    case (Some name)
    show ?thesis
    proof (cases "dec name v")
      case (Inl e) then show ?thesis by (simp add: a Some)
    next
      case (Inr d)
      then show ?thesis
        by (cases "decoded dec m data") (simp_all add: a Some Cons.IH)
    qed
  qed
qed

lemma decoded_length: "decoded dec m data = Inr us \<Longrightarrow> length us = length (known m data)"
proof (induction data arbitrary: us)
  case Nil then show ?case by (simp add: known_def)
next
  case (Cons a data)
  obtain i v where a: "a = (i, v)" by (cases a)
  from Cons show ?case
    by (cases "map_of m i") (auto simp: a known_def on_ok_Inr)
qed

lemma decoded_names: "decoded dec m data = Inr us \<Longrightarrow> map fst us = known_names m data"
proof (induction data arbitrary: us)
  case Nil then show ?case by (simp add: known_names_def known_def)
next
  case (Cons a data)
  obtain i v where a: "a = (i, v)" by (cases a)
  from Cons show ?case
    by (cases "map_of m i") (auto simp: a known_def known_names_def on_ok_Inr dict_get_def)
qed

lemma dict_eq_refl [simp]: "dict_eq a a"
  by (simp add: dict_eq_iff)

text \<open>Once the candidate is adopted, the loop only overlays and counts.\<close>

lemma keys_loop_aliased:
  "last_known_values f = n \<Longrightarrow>
     heap (keys_loop us n f) a = (if a = n then lay us (heap f n) else heap f a)
   \<and> compares (keys_loop us n f) = compares f + length us
   \<and> queue_refs (keys_loop us n f) = queue_refs f
   \<and> last_known_values (keys_loop us n f) = n
   \<and> next_addr (keys_loop us n f) = next_addr f"
proof (induction us arbitrary: f)
  case Nil then show ?case by simp
next
  case (Cons u us)
  obtain k d where u: "u = (k, d)" by (cases u)
  let ?f1 = "(store f n (AList.update k d (heap f n)))\<lparr>compares := compares f + 1\<rparr>"
  have l: "last_known_values ?f1 = n" using Cons.prems by simp
  have e: "keys_loop (u # us) n f = keys_loop us n ?f1"
    using Cons.prems by (simp add: u Let_def)
  show ?case unfolding e using Cons.IH[OF l] by (simp add: u)
qed

text \<open>What the loop leaves, from a state in which the candidate is not yet adopted.\<close>

lemma keys_loop_general:
  assumes "last_known_values f \<noteq> n"
  shows "heap (keys_loop us n f) a = (if a = n then lay us (heap f n) else heap f a)
       \<and> compares (keys_loop us n f) = compares f + length us
       \<and> next_addr (keys_loop us n f) = next_addr f
       \<and> ((queue_refs (keys_loop us n f) = queue_refs f
            \<and> last_known_values (keys_loop us n f) = last_known_values f)
          \<or> (queue_refs (keys_loop us n f) = queue_refs f @ [n]
            \<and> last_known_values (keys_loop us n f) = n))"
  using assms
proof (induction us arbitrary: f)
  case Nil then show ?case by simp
next
  case (Cons u us)
  obtain k d where u: "u = (k, d)" by (cases u)
  let ?f1 = "(store f n (AList.update k d (heap f n)))\<lparr>compares := compares f + 1\<rparr>"
  show ?case
  proof (cases "dict_eq (heap ?f1 n) (heap ?f1 (last_known_values ?f1))")
    case True
    then have e: "keys_loop (u # us) n f = keys_loop us n ?f1" by (simp add: u Let_def)
    have l: "last_known_values ?f1 \<noteq> n" using Cons.prems by simp
    show ?thesis unfolding e using Cons.IH[OF l] by (simp add: u)
  next
    case False
    let ?f2 = "?f1\<lparr>last_known_values := n, queue_refs := queue_refs ?f1 @ [n]\<rparr>"
    from False have e: "keys_loop (u # us) n f = keys_loop us n ?f2" by (simp add: u Let_def)
    have l: "last_known_values ?f2 = n" by simp
    show ?thesis unfolding e using keys_loop_aliased[OF l, of us a] by (simp add: u)
  qed
qed

lemma keys_loop_last_eq:
  assumes "dict_eq (heap f n) (heap f (last_known_values f))"
  shows "dict_eq (heap (keys_loop us n f) n)
           (heap (keys_loop us n f) (last_known_values (keys_loop us n f)))"
  using assms
proof (induction us arbitrary: f)
  case Nil then show ?case by simp
next
  case (Cons u us)
  obtain k d where u: "u = (k, d)" by (cases u)
  let ?f1 = "(store f n (AList.update k d (heap f n)))\<lparr>compares := compares f + 1\<rparr>"
  show ?case
  proof (cases "dict_eq (heap ?f1 n) (heap ?f1 (last_known_values ?f1))")
    case True
    then have e: "keys_loop (u # us) n f = keys_loop us n ?f1" by (simp add: u Let_def)
    show ?thesis unfolding e by (rule Cons.IH[OF True])
  next
    case False
    let ?f2 = "?f1\<lparr>last_known_values := n, queue_refs := queue_refs ?f1 @ [n]\<rparr>"
    from False have e: "keys_loop (u # us) n f = keys_loop us n ?f2" by (simp add: u Let_def)
    have l: "last_known_values ?f2 = n" by simp
    show ?thesis unfolding e using keys_loop_aliased[OF l, of us] by simp
  qed
qed

text \<open>With pairwise different names the candidate is enqueued exactly when it differs.\<close>

lemma lay_other: "k \<notin> fst ` set us \<Longrightarrow> map_of (lay us s) k = map_of s k"
proof -
  assume "k \<notin> fst ` set us"
  then have "map_of (rev us) k = None" by (simp add: map_of_eq_None_iff)
  then show ?thesis by (simp add: map_of_lay map_add_def)
qed

lemma keys_loop_distinct:
  assumes "last_known_values f \<noteq> n" and "distinct (map fst us)"
    and "dict_eq (heap f n) (heap f (last_known_values f))"
  shows "queue_refs (keys_loop us n f)
         = (if dict_eq (lay us (heap f n)) (heap f (last_known_values f)) then queue_refs f
            else queue_refs f @ [n])"
  using assms
proof (induction us arbitrary: f)
  case Nil then show ?case by simp
next
  case (Cons u us)
  obtain k d where u: "u = (k, d)" by (cases u)
  let ?f1 = "(store f n (AList.update k d (heap f n)))\<lparr>compares := compares f + 1\<rparr>"
  have ln: "last_known_values ?f1 \<noteq> n" using Cons.prems by simp
  have hl: "heap ?f1 (last_known_values ?f1) = heap f (last_known_values f)"
    using Cons.prems(1) by simp
  have hn: "heap ?f1 n = AList.update k d (heap f n)" by simp
  show ?case
  proof (cases "dict_eq (heap ?f1 n) (heap ?f1 (last_known_values ?f1))")
    case True
    then have e: "keys_loop (u # us) n f = keys_loop us n ?f1" by (simp add: u Let_def)
    have d: "distinct (map fst us)" using Cons.prems(2) by simp
    show ?thesis unfolding e Cons.IH[OF ln d True] using Cons.prems(1) by (simp add: u)
  next
    case False
    let ?f2 = "?f1\<lparr>last_known_values := n, queue_refs := queue_refs ?f1 @ [n]\<rparr>"
    from False have e: "keys_loop (u # us) n f = keys_loop us n ?f2" by (simp add: u Let_def)
    have l: "last_known_values ?f2 = n" by simp
    have q: "queue_refs (keys_loop (u # us) n f) = queue_refs f @ [n]"
      unfolding e using keys_loop_aliased[OF l, of us] by simp
    have kn: "k \<notin> fst ` set us" using Cons.prems(2) by (simp add: u)
    have "map_of (AList.update k d (heap f n)) \<noteq> map_of (heap f (last_known_values f))"
      using False unfolding hl hn by (simp add: dict_eq_iff)
    moreover have "map_of (heap f n) = map_of (heap f (last_known_values f))"
      using Cons.prems(3) by (simp add: dict_eq_iff)
    ultimately have ne: "map_of (heap f (last_known_values f)) k \<noteq> Some d"
      by (auto simp: update_conv' fun_eq_iff split: if_splits)
    have "map_of (lay (u # us) (heap f n)) k = Some d"
      by (simp add: u lay_other[OF kn] update_conv')
    with ne have "\<not> dict_eq (lay (u # us) (heap f n)) (heap f (last_known_values f))"
      by (auto simp: dict_eq_iff)
    with q show ?thesis by simp
  qed
qed

text \<open>A message whose updates the last known snapshot already holds changes nothing.\<close>

lemma keys_loop_nothing_new:
  assumes "last_known_values f \<noteq> n"
    and "dict_eq (heap f n) (heap f (last_known_values f))"
    and "\<forall>(k, d) \<in> set us. map_of (heap f (last_known_values f)) k = Some d"
  shows "queue_refs (keys_loop us n f) = queue_refs f"
  using assms
proof (induction us arbitrary: f)
  case Nil then show ?case by simp
next
  case (Cons u us)
  obtain k d where u: "u = (k, d)" by (cases u)
  let ?f1 = "(store f n (AList.update k d (heap f n)))\<lparr>compares := compares f + 1\<rparr>"
  have ln: "last_known_values ?f1 \<noteq> n" using Cons.prems by simp
  have hl: "heap ?f1 (last_known_values ?f1) = heap f (last_known_values f)"
    using Cons.prems(1) by simp
  have hn: "heap ?f1 n = AList.update k d (heap f n)" by simp
  have m: "map_of (heap f n) = map_of (heap f (last_known_values f))"
    using Cons.prems(2) by (simp add: dict_eq_iff)
  have kd: "map_of (heap f (last_known_values f)) k = Some d"
    using Cons.prems(3) by (simp add: u)
  have "map_of (AList.update k d (heap f n)) = map_of (heap f (last_known_values f))"
    unfolding update_conv' m using kd by (rule map_upd_triv)
  then have t: "dict_eq (heap ?f1 n) (heap ?f1 (last_known_values ?f1))"
    unfolding hl hn by (simp add: dict_eq_iff)
  then have e: "keys_loop (u # us) n f = keys_loop us n ?f1" by (simp add: u Let_def)
  have r: "\<forall>(k, d) \<in> set us. map_of (heap ?f1 (last_known_values ?f1)) k = Some d"
    unfolding hl using Cons.prems(3) by simp
  show ?case unfolding e Cons.IH[OF ln t r] by simp
qed

lemma copy_last_known_fields [simp]:
  "heap (copy_last_known f) a
     = (if a = next_addr f then heap f (last_known_values f) else heap f a)"
  "next_addr (copy_last_known f) = next_addr f + 1"
  "last_known_values (copy_last_known f) = last_known_values f"
  "queue_refs (copy_last_known f) = queue_refs f"
  "compares (copy_last_known f) = compares f"
  by (simp_all add: copy_last_known_def)

lemma message_per_key_decoded:
  "message_per_key dec m data f
     = on_ok (decoded dec m data) (\<lambda>us. Inr (keys_loop us (next_addr f) (copy_last_known f)))"
  by (simp add: message_per_key_def updates_per_key_decoded)

lemma lay_twice: "map_of s = map_of (lay us l) \<Longrightarrow> map_of (lay us s) = map_of s"
  unfolding map_of_lay by (rule ext) (simp add: map_add_def split: option.splits)

lemma lay_holds:
  assumes "distinct (map fst us)" and "map_of s = map_of (lay us l)"
  shows "\<forall>(k, d) \<in> set us. map_of s k = Some d"
proof -
  have "map_of (rev us) k = Some d" if "(k, d) \<in> set us" for k d
    using that assms(1) by (intro map_of_is_SomeI) (simp_all add: rev_map[symmetric])
  then show ?thesis unfolding assms(2) map_of_lay by (auto simp: map_add_def)
qed

lemma per_key_message:
  assumes wf: "last_known_values f < next_addr f"
    and r: "message_per_key dec m data f = Inr f2"
  shows "compares f2 = compares f + length (known m data)"
    and "overlay dec m data (heap f (last_known_values f)) = Inr (heap f2 (next_addr f))"
    and "queue_refs f2 = queue_refs f \<or> queue_refs f2 = queue_refs f @ [next_addr f]"
    and "distinct (known_names m data) \<Longrightarrow>
           queue_refs f2 = (if dict_eq (heap f2 (next_addr f)) (heap f (last_known_values f))
                            then queue_refs f else queue_refs f @ [next_addr f])"
    and "distinct (known_names m data) \<Longrightarrow>
           map_sum id queue_refs (message_per_key dec m data f2) = Inr (queue_refs f2)"
proof -
  let ?n = "next_addr f" and ?f0 = "copy_last_known f"
  from r obtain us where us: "decoded dec m data = Inr us"
    and f2: "f2 = keys_loop us ?n ?f0"
    by (auto simp: message_per_key_decoded on_ok_Inr)
  have ln: "last_known_values ?f0 \<noteq> ?n" using wf by simp
  have h0: "heap ?f0 ?n = heap f (last_known_values f)" by simp
  have hl0: "heap ?f0 (last_known_values ?f0) = heap f (last_known_values f)"
    using wf by simp
  note g = keys_loop_general[OF ln, of us]
  have hn: "heap f2 ?n = lay us (heap f (last_known_values f))"
    unfolding f2 using g[of ?n] by simp
  show "compares f2 = compares f + length (known m data)"
    unfolding f2 using g[of ?n] decoded_length[OF us] by simp
  show "overlay dec m data (heap f (last_known_values f)) = Inr (heap f2 (next_addr f))"
    by (simp add: overlay_decoded us hn)
  show "queue_refs f2 = queue_refs f \<or> queue_refs f2 = queue_refs f @ [next_addr f]"
    unfolding f2 using g[of ?n] by auto
  have e0: "dict_eq (heap ?f0 ?n) (heap ?f0 (last_known_values ?f0))"
    unfolding h0 hl0 by simp
  {
    assume d: "distinct (known_names m data)"
    then have du: "distinct (map fst us)" using decoded_names[OF us] by simp
    show "queue_refs f2 = (if dict_eq (heap f2 (next_addr f)) (heap f (last_known_values f))
                            then queue_refs f else queue_refs f @ [next_addr f])"
      unfolding hn unfolding f2 keys_loop_distinct[OF ln du e0] h0 hl0 by simp
    let ?S = "heap f2 (last_known_values f2)"
    have "dict_eq (heap f2 ?n) ?S" unfolding f2 by (rule keys_loop_last_eq[OF e0])
    then have mS: "map_of ?S = map_of (lay us (heap f (last_known_values f)))"
      by (simp add: dict_eq_iff hn)
    have nx: "next_addr f2 = ?n + 1" unfolding f2 using g[of ?n] by simp
    have l2: "last_known_values f2 = last_known_values f \<or> last_known_values f2 = ?n"
      unfolding f2 using g[of ?n] by auto
    then have wf2: "last_known_values f2 < next_addr f2" using wf nx by auto
    let ?g0 = "copy_last_known f2"
    have ln2: "last_known_values ?g0 \<noteq> next_addr f2" using wf2 by simp
    have a: "heap ?g0 (next_addr f2) = ?S" by simp
    have b: "heap ?g0 (last_known_values ?g0) = ?S" using wf2 by simp
    have e2: "dict_eq (heap ?g0 (next_addr f2)) (heap ?g0 (last_known_values ?g0))"
      unfolding a b by simp
    have all: "\<forall>(k, d) \<in> set us. map_of (heap ?g0 (last_known_values ?g0)) k = Some d"
      unfolding b by (rule lay_holds[OF du mS])
    have "queue_refs (keys_loop us (next_addr f2) ?g0) = queue_refs ?g0"
      by (rule keys_loop_nothing_new[OF ln2 e2 all])
    then show "map_sum id queue_refs (message_per_key dec m data f2) = Inr (queue_refs f2)"
      by (simp add: message_per_key_decoded us)
  }
qed

lemma once_message:
  assumes wf: "last_known_values f < next_addr f"
    and r: "message_once dec m data f = Inr f1"
  shows "compares f1 = compares f + 1"
    and "overlay dec m data (heap f (last_known_values f)) = Inr (heap f1 (next_addr f))"
    and "queue_refs f1 = (if dict_eq (heap f1 (next_addr f)) (heap f (last_known_values f))
                          then queue_refs f else queue_refs f @ [next_addr f])"
    and "map_sum id queue_refs (message_once dec m data f1) = Inr (queue_refs f1)"
proof -
  let ?n = "next_addr f" and ?L = "heap f (last_known_values f)"
  from r obtain us where us: "decoded dec m data = Inr us"
    by (auto simp: message_once_def updates_overlay_decoded on_ok_Inr)
  have ln: "last_known_values f \<noteq> ?n" using wf by simp
  let ?c = "lay us ?L"
  have f1: "f1 = (if dict_eq ?c ?L
                  then (store (copy_last_known f) ?n ?c)\<lparr>compares := compares f + 1\<rparr>
                  else (store (copy_last_known f) ?n ?c)
                         \<lparr>compares := compares f + 1, last_known_values := ?n,
                          queue_refs := queue_refs f @ [?n]\<rparr>)"
    using r ln by (simp add: message_once_def updates_overlay_decoded us Let_def split: if_splits)
  have hn: "heap f1 ?n = ?c" unfolding f1 by simp
  show "compares f1 = compares f + 1" unfolding f1 by simp
  show "overlay dec m data ?L = Inr (heap f1 (next_addr f))"
    by (simp add: overlay_decoded us hn)
  show "queue_refs f1 = (if dict_eq (heap f1 (next_addr f)) ?L
                          then queue_refs f else queue_refs f @ [next_addr f])"
    unfolding hn unfolding f1 by simp
  let ?S = "heap f1 (last_known_values f1)"
  have mS: "map_of ?S = map_of ?c"
    unfolding f1 using ln by (auto simp: dict_eq_iff)
  have nx: "next_addr f1 = ?n + 1" unfolding f1 by simp
  have "last_known_values f1 = last_known_values f \<or> last_known_values f1 = ?n"
    unfolding f1 by simp
  then have wf1: "last_known_values f1 \<noteq> next_addr f1" using wf nx by auto
  have "dict_eq (lay us ?S) ?S" using lay_twice[OF mS] by (simp add: dict_eq_iff)
  then show "map_sum id queue_refs (message_once dec m data f1) = Inr (queue_refs f1)"
    using wf1 by (simp add: message_once_def updates_overlay_decoded us Let_def)
qed

text \<open>
  Claim C4, as the spec states it: for every data message the feed client compares the
  complete candidate with the previous snapshot exactly once. The ToLiss script (and
  the Zibo one, which has the same loop) compares inside the loop over the updates: a
  message with two known ids makes it compare twice. It leaves one entry in the queue,
  the dict that the second update still modified.
\<close>

theorem feed_compares_per_key:
  "map_sum id compares
     (handle_datarefs_toliss b64_fragment
        [(1, str ''AirbusFBW/MCDU1cont1w''), (2, str ''AirbusFBW/MCDU1cont2w'')]
        [(1, PStr (str ''QQ=='')), (2, PStr (str ''Qg==''))] feed_start) = Inr 2
   \<and> map_sum id queued
     (handle_datarefs_toliss b64_fragment
        [(1, str ''AirbusFBW/MCDU1cont1w''), (2, str ''AirbusFBW/MCDU1cont2w'')]
        [(1, PStr (str ''QQ=='')), (2, PStr (str ''Qg==''))] feed_start)
     = Inr [[(str ''AirbusFBW/MCDU1cont1w'', str ''A''), (str ''AirbusFBW/MCDU1cont2w'', str ''B'')]]"
  by code_simp

text \<open>
  Claim C4, amended, for a feed state whose \<open>last_known_values\<close> is an allocated dict and
  a data message all of whose known updates decode. In every script the candidate is
  the previous snapshot with all decoded updates of the message laid over it, and it
  is the dict at the address that is enqueued, if one is. The FlightFactor and X-Crafts
  scripts (\<open>message_once\<close>) compare the complete candidate with the previous snapshot
  once and enqueue it exactly if it differs; a second, identical message adds no queue
  entry. The ToLiss and Zibo scripts (\<open>message_per_key\<close>) compare once per known update
  of the message and enqueue at most one entry per message; when the known updates of
  the message are for pairwise different datarefs, the entry is enqueued exactly if
  the complete candidate differs from the previous snapshot, and a second, identical
  message adds no queue entry.
\<close>

theorem feed_change_detection:
  assumes "last_known_values f < next_addr f"
  shows
    "(message_once dec m data f = Inr f1 \<longrightarrow>
        compares f1 = compares f + 1
      \<and> overlay dec m data (heap f (last_known_values f)) = Inr (heap f1 (next_addr f))
      \<and> queue_refs f1 = (if dict_eq (heap f1 (next_addr f)) (heap f (last_known_values f))
                         then queue_refs f else queue_refs f @ [next_addr f])
      \<and> map_sum id queue_refs (message_once dec m data f1) = Inr (queue_refs f1))
   \<and> (message_per_key dec m data f = Inr f2 \<longrightarrow>
        compares f2 = compares f + length (known m data)
      \<and> overlay dec m data (heap f (last_known_values f)) = Inr (heap f2 (next_addr f))
      \<and> (queue_refs f2 = queue_refs f \<or> queue_refs f2 = queue_refs f @ [next_addr f])
      \<and> (distinct (known_names m data) \<longrightarrow>
            queue_refs f2 = (if dict_eq (heap f2 (next_addr f)) (heap f (last_known_values f))
                             then queue_refs f else queue_refs f @ [next_addr f])
          \<and> map_sum id queue_refs (message_per_key dec m data f2) = Inr (queue_refs f2)))"
  using once_message[OF assms, of dec m data f1] per_key_message[OF assms, of dec m data f2]
  by blast


text \<open>
  Witness of claim C4: the amended statement for the FlightFactor and the ToLiss feed
  client, from the start state, for a message with two known updates.
\<close>

theorem feed_change_detection_witness:
  "compares (projr (handle_datarefs_ff b64_fragment
       [(1, SYMBOLS), (2, SYMBOLS_SIZE)]
       [(1, PStr (str ''QQ=='')), (2, PStr (str ''Qg==''))] feed_start))
     = compares (feed_start :: pyval feed) + 1
   \<and> map_sum id queue_refs (handle_datarefs_ff b64_fragment
       [(1, SYMBOLS), (2, SYMBOLS_SIZE)]
       [(1, PStr (str ''QQ=='')), (2, PStr (str ''Qg==''))]
       (projr (handle_datarefs_ff b64_fragment
          [(1, SYMBOLS), (2, SYMBOLS_SIZE)]
          [(1, PStr (str ''QQ=='')), (2, PStr (str ''Qg==''))] feed_start)))
     = Inr (queue_refs (projr (handle_datarefs_ff b64_fragment
          [(1, SYMBOLS), (2, SYMBOLS_SIZE)]
          [(1, PStr (str ''QQ=='')), (2, PStr (str ''Qg==''))] feed_start)))
   \<and> compares (projr (handle_datarefs_toliss b64_fragment
       [(1, str ''AirbusFBW/MCDU1cont1w''), (2, str ''AirbusFBW/MCDU1cont2w'')]
       [(1, PStr (str ''QQ=='')), (2, PStr (str ''Qg==''))] feed_start))
     = compares (feed_start :: ustring feed)
       + length (known [(1, str ''AirbusFBW/MCDU1cont1w''), (2, str ''AirbusFBW/MCDU1cont2w'')]
                   [(1, PStr (str ''QQ=='')), (2, PStr (str ''Qg==''))])
   \<and> map_sum id queue_refs (handle_datarefs_toliss b64_fragment
       [(1, str ''AirbusFBW/MCDU1cont1w''), (2, str ''AirbusFBW/MCDU1cont2w'')]
       [(1, PStr (str ''QQ=='')), (2, PStr (str ''Qg==''))]
       (projr (handle_datarefs_toliss b64_fragment
          [(1, str ''AirbusFBW/MCDU1cont1w''), (2, str ''AirbusFBW/MCDU1cont2w'')]
          [(1, PStr (str ''QQ=='')), (2, PStr (str ''Qg==''))] feed_start)))
     = Inr (queue_refs (projr (handle_datarefs_toliss b64_fragment
          [(1, str ''AirbusFBW/MCDU1cont1w''), (2, str ''AirbusFBW/MCDU1cont2w'')]
          [(1, PStr (str ''QQ=='')), (2, PStr (str ''Qg==''))] feed_start)))"
proof -
  let ?cf = "[(1, SYMBOLS), (2, SYMBOLS_SIZE)] :: (int \<times> ustring) list"
  let ?ct = "[(1, str ''AirbusFBW/MCDU1cont1w''), (2, str ''AirbusFBW/MCDU1cont2w'')]
               :: (int \<times> ustring) list"
  let ?msg = "[(1, PStr (str ''QQ=='')), (2, PStr (str ''Qg==''))] :: (int \<times> pyval) list"
  let ?R1 = "message_once (decode_passthrough b64_fragment) ?cf ?msg feed_start"
  let ?R2 = "message_per_key (decode_toliss b64_fragment) ?ct ?msg feed_start"
  have w1: "last_known_values (feed_start :: pyval feed) < next_addr (feed_start :: pyval feed)"
    by (simp add: feed_start_def)
  have w2: "last_known_values (feed_start :: ustring feed) < next_addr (feed_start :: ustring feed)"
    by (simp add: feed_start_def)
  have "\<not> isl ?R1" by code_simp
  then have r1: "?R1 = Inr (projr ?R1)" by simp
  have "\<not> isl ?R2" by code_simp
  then have r2: "?R2 = Inr (projr ?R2)" by simp
  have d: "distinct (known_names ?ct ?msg)" by code_simp
  show ?thesis
    unfolding handle_datarefs_ff_def handle_datarefs_toliss_def
    using feed_change_detection[OF w1, of "decode_passthrough b64_fragment" ?cf ?msg
            "projr ?R1" "projr ?R1"]
          feed_change_detection[OF w2, of "decode_toliss b64_fragment" ?ct ?msg
            "projr ?R2" "projr ?R2"]
          r1 r2 d
    by blast
qed

end
